theory Spec2Isabelle
  imports Main "HOL-Library.Char_ord" "HOL-Library.List_Lexorder" "HOL-Library.AList"
begin

section \<open>KVStorageEngine (mongo/db/storage/kv/kv\_storage\_engine.cpp)\<close>

text \<open>
  A shallow embedding of the methods of \<open>KVStorageEngine\<close>. The object, the operation
  context it is handed and the per-database catalog entries it owns are one explicit
  state; every method takes the state and returns its result with the new state.
  The collaborators the file only calls (the \<open>KVEngine\<close>, the
  \<open>KVDatabaseCatalogEntryBase\<close> handles, \<open>NamespaceString\<close>, the logical clock) are
  parameters, so every theorem holds for any behaviour of theirs.
\<close>

subsection \<open>Values\<close>

type_synonym ident = string
type_synonym ns = string

datatype error_code = BadValue | NamespaceNotFound | UnrecoverableRollbackError | OtherError nat

datatype status = OK | Error error_code string

fun isOK :: "status \<Rightarrow> bool" where
  "isOK OK = True"
| "isOK (Error c m) = False"

text \<open>
  How a call ends: it returns a value, it leaves by a C++ exception, or the process is
  terminated (\<open>invariant\<close>, \<open>fassert\<close>, a null or dangling pointer dereferenced).
\<close>

datatype 'a outcome = Returns 'a | Throws string | Fatal string

text \<open>How a call on a collaborator ends: it returns, or it throws.\<close>

datatype 'a call = Returned 'a | Threw string

fun outcome_of_call :: "'a call \<Rightarrow> 'a outcome" where
  "outcome_of_call (Returned v) = Returns v"
| "outcome_of_call (Threw x) = Throws x"

text \<open>
  Modelled from the spec: the \<open>Timestamp\<close> type, which this file only uses. A commit
  timestamp is either unset (the null timestamp, \<open>Timestamp()\<close>) or set to a value.
\<close>

type_synonym timestamp = nat

definition nullTimestamp :: timestamp where
  "nullTimestamp = 0"

definition isNull :: "timestamp \<Rightarrow> bool" where
  "isNull ts = (ts = nullTimestamp)"

text \<open>
  Modelled from the spec: \<open>Timestamp::kAllowUnstableCheckpointsSentinel\<close>, the value of
  \<open>initialDataTimestamp\<close> that stands for "not in stable-checkpoint mode". The source
  only compares with it.
\<close>

definition kAllowUnstableCheckpointsSentinel :: timestamp where
  "kAllowUnstableCheckpointsSentinel = 1"

definition catalogInfo :: ident where
  "catalogInfo = ''_mdb_catalog''"

text \<open>A \<open>KVDatabaseCatalogEntryBase*\<close>: null, or the address of an entry.\<close>

datatype ptr = Null | Addr nat

subsection \<open>The collaborators' data\<close>

text \<open>
  Modelled from the spec: the \<open>KVCatalog\<close>, a mapping of namespace to collection ident
  and index descriptors (name and ident each).
\<close>

record coll_entry =
  ce_ns :: ns
  ce_ident :: ident
  ce_indexes :: "(string \<times> ident) list"

type_synonym kv_catalog = "coll_entry list"

definition getAllCollections :: "kv_catalog \<Rightarrow> ns list" where
  "getAllCollections c = map ce_ns c"

definition getAllIdents_catalog :: "kv_catalog \<Rightarrow> ident list" where
  "getAllIdents_catalog c = concat (map (\<lambda>e. ce_ident e # map snd (ce_indexes e)) c)"

definition getCollectionIdent :: "kv_catalog \<Rightarrow> ns \<Rightarrow> ident option" where
  "getCollectionIdent c n = map_option ce_ident (find (\<lambda>e. ce_ns e = n) c)"

text \<open>\<open>getMetaData(ns).indexes\<close>, each with its \<open>name()\<close>.\<close>

definition getMetaData_indexes :: "kv_catalog \<Rightarrow> ns \<Rightarrow> string list option" where
  "getMetaData_indexes c n = map_option (\<lambda>e. map fst (ce_indexes e)) (find (\<lambda>e. ce_ns e = n) c)"

definition getIndexIdent :: "kv_catalog \<Rightarrow> ns \<Rightarrow> string \<Rightarrow> ident option" where
  "getIndexIdent c n idx =
     (case find (\<lambda>e. ce_ns e = n) c of
        None \<Rightarrow> None
      | Some e \<Rightarrow> map_of (ce_indexes e) idx)"

text \<open>
  Modelled from the spec: the \<open>KVEngine\<close>, by the idents it knows (\<open>getAllIdents\<close>) and
  whether \<open>cleanShutdown\<close> was called on it.
\<close>

record kv_engine =
  engine_idents :: "ident list"
  engine_shut :: bool

text \<open>
  Modelled from the spec: a \<open>KVDatabaseCatalogEntryBase\<close>, by its \<open>name()\<close> and its
  collection namespaces (\<open>getCollectionNamespaces\<close>).
\<close>

record db_entry =
  dbName :: string
  collNamespaces :: "ns list"

text \<open>The calls made on the collaborators, in the order they were made.\<close>

datatype event =
    EvDropIdent ident
  | EvDropCollection ns "status call"
  | EvRepairIdent ident
  | EvReinitCollectionAfterRepair ns
  | EvWuowCommit
  | EvWuowAbort

text \<open>
  A \<open>RecoveryUnit::Change\<close>. The only one this file registers is \<open>RemoveDBChange\<close>,
  with its \<open>_db\<close> and \<open>_entry\<close>.
\<close>

datatype change = RemoveDBChange string nat

text \<open>
  The behaviour of the collaborators. \<open>engine_newRecoveryUnit\<close> is
  \<open>KVEngine::newRecoveryUnit\<close> (\<open>None\<close> for a null pointer). A call on a catalog
  entry gives the collection namespaces the entry has afterwards; its \<open>name()\<close> is fixed.
\<close>

record collaborators =
  engine_newRecoveryUnit :: "kv_engine \<Rightarrow> nat option"
  engine_dropIdent :: "kv_engine \<Rightarrow> ident \<Rightarrow> status \<times> kv_engine"
  engine_repairIdent :: "kv_engine \<Rightarrow> ident \<Rightarrow> status \<times> kv_engine"
  catalog_isUserDataIdent :: "ident \<Rightarrow> bool"
  dbce_dropCollection :: "db_entry \<Rightarrow> ns \<Rightarrow> status call \<times> ns list"
  dbce_reinitCollectionAfterRepair :: "db_entry \<Rightarrow> ns \<Rightarrow> ns list"
  nss_isReplicated :: "ns \<Rightarrow> bool"
  nss_isDropPendingNamespace :: "ns \<Rightarrow> bool"
  getClusterTime :: timestamp

subsection \<open>The state\<close>

text \<open>
  The members of \<open>KVStorageEngine\<close> (\<open>_engine\<close>, \<open>_catalog\<close>, \<open>_dbs\<close>,
  \<open>_initialDataTimestamp\<close>, \<open>_inBackupMode\<close>), the store of the catalog entries the
  pointers in \<open>_dbs\<close> refer to (with the next address the factory hands out), and the
  recovery unit of the operation context (its commit timestamp, whether a unit of work
  is open, the changes registered on it).
\<close>

text \<open>
  \<open>_dbs\<close>, a \<open>std::map\<close> from database name to entry pointer, is an association list
  with one pair for each key.
\<close>

record state =
  engine :: "kv_engine option"
  catalog :: "kv_catalog option"
  dbs :: "(string \<times> ptr) list"
  initialDataTimestamp :: timestamp
  inBackupMode :: bool
  heap :: "nat \<rightharpoonup> db_entry"
  nextAddr :: nat
  commitTimestamp :: timestamp
  inUnitOfWork :: bool
  changes :: "change list"
  trace :: "event list"

subsection \<open>RemoveDBChange and the unit of work\<close>

fun change_commit :: "change \<Rightarrow> state \<Rightarrow> state" where
  "change_commit (RemoveDBChange db entry) s = s\<lparr>heap := (heap s)(entry := None)\<rparr>"

fun change_rollback :: "change \<Rightarrow> state \<Rightarrow> state" where
  "change_rollback (RemoveDBChange db entry) s = s\<lparr>dbs := AList.update db (Addr entry) (dbs s)\<rparr>"

text \<open>
  Modelled from the spec: the write transaction (\<open>WriteUnitOfWork\<close> over the recovery
  unit). Only the outermost unit of work commits or aborts. On commit the registered
  changes are committed; on abort they are rolled back in reverse order of
  registration.
\<close>

definition commitUnitOfWork :: "state \<Rightarrow> state" where
  "commitUnitOfWork s =
     (fold change_commit (changes s) s)\<lparr>changes := [], inUnitOfWork := False\<rparr>"

definition abortUnitOfWork :: "state \<Rightarrow> state" where
  "abortUnitOfWork s =
     (fold change_rollback (rev (changes s)) s)\<lparr>changes := [], inUnitOfWork := False\<rparr>"

text \<open>The constructor: returns whether this unit of work is the outermost.\<close>

definition wuow_begin :: "state \<Rightarrow> bool \<times> state" where
  "wuow_begin s = (\<not> inUnitOfWork s, s\<lparr>inUnitOfWork := True\<rparr>)"

definition wuow_commit :: "bool \<Rightarrow> state \<Rightarrow> state" where
  "wuow_commit toplevel s =
     (let s1 = s\<lparr>trace := trace s @ [EvWuowCommit]\<rparr>
      in if toplevel then commitUnitOfWork s1 else s1)"

text \<open>The destructor of a unit of work that was not committed.\<close>

definition wuow_abort :: "bool \<Rightarrow> state \<Rightarrow> state" where
  "wuow_abort toplevel s =
     (let s1 = s\<lparr>trace := trace s @ [EvWuowAbort]\<rparr>
      in if toplevel then abortUnitOfWork s1 else s1)"

definition registerChange :: "change \<Rightarrow> state \<Rightarrow> state" where
  "registerChange c s = s\<lparr>changes := changes s @ [c]\<rparr>"

definition setCommitTimestamp :: "timestamp \<Rightarrow> state \<Rightarrow> state" where
  "setCommitTimestamp ts s = s\<lparr>commitTimestamp := ts\<rparr>"

definition clearCommitTimestamp :: "state \<Rightarrow> state" where
  "clearCommitTimestamp s = s\<lparr>commitTimestamp := nullTimestamp\<rparr>"

subsection \<open>reconcileCatalogAndIdents\<close>

text \<open>
  A \<open>std::set<std::string>\<close> filled from a vector: iterated in ascending order, without
  duplicates.
\<close>

definition std_set_of :: "string list \<Rightarrow> string list" where
  "std_set_of vec = sort (remdups vec)"

definition std_set_erase :: "string \<Rightarrow> string list \<Rightarrow> string list" where
  "std_set_erase x xs = removeAll x xs"

text \<open>The first loop: drop the idents of the engine that the catalog does not know.\<close>

fun dropUnknownIdents ::
  "collaborators \<Rightarrow> ident list \<Rightarrow> ident list \<Rightarrow> state \<Rightarrow> unit outcome \<times> state" where
  "dropUnknownIdents X catalogIdents [] s = (Returns (), s)"
| "dropUnknownIdents X catalogIdents (it # rest) s =
     (if it \<in> set catalogIdents then dropUnknownIdents X catalogIdents rest s
      else if \<not> catalog_isUserDataIdent X it then dropUnknownIdents X catalogIdents rest s
      else
        (case engine s of
           None \<Rightarrow> (Fatal ''null _engine'', s)
         | Some e \<Rightarrow>
             let toplevel = fst (wuow_begin s);
                 s1 = snd (wuow_begin s);
                 st = fst (engine_dropIdent X e it);
                 s2 = s1\<lparr>engine := Some (snd (engine_dropIdent X e it)),
                         trace := trace s1 @ [EvDropIdent it]\<rparr>
             in if \<not> isOK st then (Fatal ''fassert 40591'', s2)
                else dropUnknownIdents X catalogIdents rest (wuow_commit toplevel s2)))"

text \<open>The second loop: the first collection whose ident the engine does not have.\<close>

fun checkCollections :: "kv_catalog \<Rightarrow> ident list \<Rightarrow> ns list \<Rightarrow> status outcome" where
  "checkCollections c engineIdents [] = Returns OK"
| "checkCollections c engineIdents (coll # rest) =
     (case getCollectionIdent c coll of
        None \<Rightarrow> Fatal ''invariant: unknown namespace''
      | Some identForColl \<Rightarrow>
          if identForColl \<notin> set engineIdents
          then Returns (Error UnrecoverableRollbackError
                 (''Expected collection does not exist. NS: '' @ coll @ '' Ident: '' @ identForColl))
          else checkCollections c engineIdents rest)"

text \<open>The third loop, inner: the indexes of one collection.\<close>

fun missingIndexes ::
  "kv_catalog \<Rightarrow> ident list \<Rightarrow> ns \<Rightarrow> string list \<Rightarrow> (ns \<times> string) list outcome" where
  "missingIndexes c engineIdents coll [] = Returns []"
| "missingIndexes c engineIdents coll (indexName # rest) =
     (case getIndexIdent c coll indexName of
        None \<Rightarrow> Fatal ''invariant: unknown index''
      | Some indexIdent \<Rightarrow>
          (case missingIndexes c engineIdents coll rest of
             Returns ret \<Rightarrow>
               if indexIdent \<in> set engineIdents then Returns ret
               else Returns ((coll, indexName) # ret)
           | Throws x \<Rightarrow> Throws x
           | Fatal m \<Rightarrow> Fatal m))"

text \<open>The third loop, outer: every collection of the catalog.\<close>

fun indexesToRebuild ::
  "kv_catalog \<Rightarrow> ident list \<Rightarrow> ns list \<Rightarrow> (ns \<times> string) list outcome" where
  "indexesToRebuild c engineIdents [] = Returns []"
| "indexesToRebuild c engineIdents (coll # rest) =
     (case getMetaData_indexes c coll of
        None \<Rightarrow> Fatal ''invariant: unknown namespace''
      | Some names \<Rightarrow>
          (case missingIndexes c engineIdents coll names of
             Returns here \<Rightarrow>
               (case indexesToRebuild c engineIdents rest of
                  Returns ret \<Rightarrow> Returns (here @ ret)
                | Throws x \<Rightarrow> Throws x
                | Fatal m \<Rightarrow> Fatal m)
           | Throws x \<Rightarrow> Throws x
           | Fatal m \<Rightarrow> Fatal m))"

text \<open>
  \<open>StatusWith<std::vector<CollectionIndexNamePair>>\<close> is \<open>status + (ns \<times> string) list\<close>,
  \<open>Inl\<close> the error.
\<close>

definition reconcileCatalogAndIdents ::
  "collaborators \<Rightarrow> state \<Rightarrow> (status + (ns \<times> string) list) outcome \<times> state" where
  "reconcileCatalogAndIdents X s =
     (case engine s of
        None \<Rightarrow> (Fatal ''null _engine'', s)
      | Some e \<Rightarrow>
     (case catalog s of
        None \<Rightarrow> (Fatal ''null _catalog'', s)
      | Some c \<Rightarrow>
          let engineIdents = std_set_erase catalogInfo (std_set_of (engine_idents e));
              catalogIdents = std_set_of (getAllIdents_catalog c)
          in (case dropUnknownIdents X catalogIdents engineIdents s of
                (Returns u, s1) \<Rightarrow>
                  let collections = getAllCollections c
                  in (case checkCollections c engineIdents collections of
                        Returns OK \<Rightarrow>
                          (case indexesToRebuild c engineIdents collections of
                             Returns ret \<Rightarrow> (Returns (Inr ret), s1)
                           | Throws x \<Rightarrow> (Throws x, s1)
                           | Fatal m \<Rightarrow> (Fatal m, s1))
                      | Returns (Error code msg) \<Rightarrow> (Returns (Inl (Error code msg)), s1)
                      | Throws x \<Rightarrow> (Throws x, s1)
                      | Fatal m \<Rightarrow> (Fatal m, s1))
              | (Throws x, s1) \<Rightarrow> (Throws x, s1)
              | (Fatal m, s1) \<Rightarrow> (Fatal m, s1))))"

subsection \<open>cleanShutdown, newRecoveryUnit\<close>

text \<open>
  \<open>cleanShutdown\<close> deletes every entry of \<open>_dbs\<close>, clears the map, resets \<open>_catalog\<close> and
  calls \<open>_engine->cleanShutdown()\<close>. It does not assign \<open>_engine\<close>.
\<close>

definition cleanShutdown :: "state \<Rightarrow> unit outcome \<times> state" where
  "cleanShutdown s =
     (let s1 = s\<lparr>heap := fold (\<lambda>it h. case snd it of Null \<Rightarrow> h | Addr a \<Rightarrow> h(a := None))
                                (dbs s) (heap s),
                  dbs := [],
                  catalog := None\<rparr>
      in case engine s1 of
           None \<Rightarrow> (Fatal ''null _engine'', s1)
         | Some e \<Rightarrow> (Returns (), s1\<lparr>engine := Some (e\<lparr>engine_shut := True\<rparr>)\<rparr>))"

definition newRecoveryUnit :: "collaborators \<Rightarrow> state \<Rightarrow> nat option" where
  "newRecoveryUnit X s =
     (case engine s of
        None \<Rightarrow> None
      | Some e \<Rightarrow> engine_newRecoveryUnit X e)"

subsection \<open>getDatabaseCatalogEntry, closeDatabase, setInitialDataTimestamp\<close>

text \<open>
  Modelled from the spec: the database-handle factory, which produces an owned entry for
  a database name. The new entry lives at the next free address and has no collection.
\<close>

definition databaseCatalogEntryFactory :: "string \<Rightarrow> state \<Rightarrow> nat \<times> state" where
  "databaseCatalogEntryFactory name s =
     (nextAddr s,
      s\<lparr>heap := (heap s)(nextAddr s \<mapsto> \<lparr>dbName = name, collNamespaces = []\<rparr>),
        nextAddr := Suc (nextAddr s)\<rparr>)"

text \<open>
  \<open>_dbs[dbName]\<close> inserts a null pointer for a missing key; a null pointer found or
  inserted is replaced by what the factory releases.
\<close>

definition getDatabaseCatalogEntry :: "string \<Rightarrow> state \<Rightarrow> ptr \<times> state" where
  "getDatabaseCatalogEntry name s =
     (case map_of (dbs s) name of
        Some (Addr a) \<Rightarrow> (Addr a, s)
      | _ \<Rightarrow>
          let a = fst (databaseCatalogEntryFactory name s);
              s1 = snd (databaseCatalogEntryFactory name s)
          in (Addr a, s1\<lparr>dbs := AList.update name (Addr a) (dbs s1)\<rparr>))"

definition closeDatabase :: "string \<Rightarrow> state \<Rightarrow> status \<times> state" where
  "closeDatabase db s = (OK, s)"

text \<open>The timestamp is cached and forwarded; the engine's copy is not modelled.\<close>

definition setInitialDataTimestamp :: "timestamp \<Rightarrow> state \<Rightarrow> state" where
  "setInitialDataTimestamp ts s = s\<lparr>initialDataTimestamp := ts\<rparr>"

text \<open>
  The operations above, which leave the entries of \<open>_dbs\<close> in place, as commands to run in
  sequence.
\<close>

datatype directory_op =
    OpGetDatabaseCatalogEntry string
  | OpCloseDatabase string
  | OpSetInitialDataTimestamp timestamp

fun run_op :: "directory_op \<Rightarrow> state \<Rightarrow> state" where
  "run_op (OpGetDatabaseCatalogEntry name) s = snd (getDatabaseCatalogEntry name s)"
| "run_op (OpCloseDatabase name) s = snd (closeDatabase name s)"
| "run_op (OpSetInitialDataTimestamp ts) s = setInitialDataTimestamp ts s"

definition run_ops :: "directory_op list \<Rightarrow> state \<Rightarrow> state" where
  "run_ops ops s = fold run_op ops s"

subsection \<open>NamespaceString\<close>

text \<open>
  Modelled from the spec: a namespace is \<open>db.collection\<close>; the database name is the
  prefix up to the first dot, the collection name what follows it.
\<close>

definition nsToDatabase :: "ns \<Rightarrow> string" where
  "nsToDatabase n = takeWhile (\<lambda>ch. ch \<noteq> CHR ''.'') n"

definition nss_coll :: "ns \<Rightarrow> string" where
  "nss_coll n = drop 1 (dropWhile (\<lambda>ch. ch \<noteq> CHR ''.'') n)"

text \<open>
  \<open>StringData::startsWith\<close>, and \<open>isSystemDotIndexes\<close>: the collection name is
  \<open>system.indexes\<close>.
\<close>

definition startsWith :: "string \<Rightarrow> string \<Rightarrow> bool" where
  "startsWith str pre = (take (length pre) str = pre)"

definition isSystemDotIndexes :: "ns \<Rightarrow> bool" where
  "isSystemDotIndexes n = (nss_coll n = ''system.indexes'')"

subsection \<open>dropDatabase\<close>

text \<open>\<open>dbce->dropCollection(opCtx, coll)\<close> on the entry at an address.\<close>

definition dbce_call_dropCollection ::
  "collaborators \<Rightarrow> nat \<Rightarrow> ns \<Rightarrow> state \<Rightarrow> status outcome \<times> state" where
  "dbce_call_dropCollection X dbce coll s =
     (case heap s dbce of
        None \<Rightarrow> (Fatal ''dangling entry'', s)
      | Some d \<Rightarrow>
          (outcome_of_call (fst (dbce_dropCollection X d coll)),
           s\<lparr>heap := (heap s)(dbce \<mapsto> d\<lparr>collNamespaces := snd (dbce_dropCollection X d coll)\<rparr>),
             trace := trace s @ [EvDropCollection coll (fst (dbce_dropCollection X d coll))]\<rparr>))"

text \<open>The condition of the invariant in the loop of \<open>_dropCollectionsNoTimestamp\<close>.\<close>

definition mayDropUntimestamped :: "collaborators \<Rightarrow> ns \<Rightarrow> bool" where
  "mayDropUntimestamped X coll =
     (\<not> nss_isReplicated X coll \<or> startsWith (nss_coll coll) ''tmp.mr'' \<or> isSystemDotIndexes coll)"

fun dropLoopNoTimestamp ::
  "collaborators \<Rightarrow> nat \<Rightarrow> ns list \<Rightarrow> status \<Rightarrow> state \<Rightarrow> status outcome \<times> state" where
  "dropLoopNoTimestamp X dbce [] firstError s = (Returns firstError, s)"
| "dropLoopNoTimestamp X dbce (coll # rest) firstError s =
     (if initialDataTimestamp s \<noteq> kAllowUnstableCheckpointsSentinel \<and> \<not> mayDropUntimestamped X coll
      then (Fatal (''Collection drop is not being timestamped. Namespace: '' @ coll), s)
      else
        (case fst (dbce_call_dropCollection X dbce coll s) of
           Returns result \<Rightarrow>
             dropLoopNoTimestamp X dbce rest
               (if \<not> isOK result \<and> isOK firstError then result else firstError)
               (snd (dbce_call_dropCollection X dbce coll s))
         | Throws x \<Rightarrow> (Throws x, snd (dbce_call_dropCollection X dbce coll s))
         | Fatal m \<Rightarrow> (Fatal m, snd (dbce_call_dropCollection X dbce coll s))))"

text \<open>
  \<open>_dropCollectionsNoTimestamp\<close>. The guard \<open>addCommitTimestamp\<close> runs when the method
  is left, by \<open>return\<close> or by an exception; the unit of work, declared after it, is
  destroyed before it.
\<close>

definition dropCollectionsNoTimestamp ::
  "collaborators \<Rightarrow> nat \<Rightarrow> ns list \<Rightarrow> state \<Rightarrow> status outcome \<times> state" where
  "dropCollectionsNoTimestamp X dbce colls s =
     (let commitTs = commitTimestamp s;
          s1 = (if \<not> isNull commitTs then clearCommitTimestamp s else s);
          addCommitTimestamp = (\<lambda>t. if \<not> isNull commitTs then setCommitTimestamp commitTs t else t);
          toplevel = fst (wuow_begin s1);
          s2 = snd (wuow_begin s1);
          res = dropLoopNoTimestamp X dbce colls OK s2
      in case fst res of
           Returns firstError \<Rightarrow>
             (Returns firstError, addCommitTimestamp (wuow_commit toplevel (snd res)))
         | Throws x \<Rightarrow> (Throws x, addCommitTimestamp (wuow_abort toplevel (snd res)))
         | Fatal m \<Rightarrow> (Fatal m, snd res))"

fun dropLoopWithTimestamp ::
  "collaborators \<Rightarrow> nat \<Rightarrow> ns list \<Rightarrow> status \<Rightarrow> state \<Rightarrow> status outcome \<times> state" where
  "dropLoopWithTimestamp X dbce [] firstError s = (Returns firstError, s)"
| "dropLoopWithTimestamp X dbce (coll # rest) firstError s =
     (case fst (dbce_call_dropCollection X dbce coll s) of
        Returns result \<Rightarrow>
          dropLoopWithTimestamp X dbce rest
            (if \<not> isOK result \<and> isOK firstError then result else firstError)
            (snd (dbce_call_dropCollection X dbce coll s))
      | Throws x \<Rightarrow> (Throws x, snd (dbce_call_dropCollection X dbce coll s))
      | Fatal m \<Rightarrow> (Fatal m, snd (dbce_call_dropCollection X dbce coll s)))"

text \<open>
  \<open>_dropCollectionsWithTimestamp\<close>: after the loop the entry must have no namespace
  left; the entry is then handed to a \<open>RemoveDBChange\<close> and erased from \<open>_dbs\<close> under
  its \<open>name()\<close>.
\<close>

definition dropCollectionsWithTimestamp ::
  "collaborators \<Rightarrow> nat \<Rightarrow> ns list \<Rightarrow> state \<Rightarrow> status outcome \<times> state" where
  "dropCollectionsWithTimestamp X dbce colls s =
     (let existingCommitTs = commitTimestamp s;
          chosenCommitTs = getClusterTime X;
          setCommitTs = (isNull existingCommitTs \<and> \<not> isNull chosenCommitTs);
          s1 = (if setCommitTs then setCommitTimestamp chosenCommitTs s else s);
          removeCommitTimestamp = (\<lambda>t. if setCommitTs then clearCommitTimestamp t else t);
          toplevel = fst (wuow_begin s1);
          s2 = snd (wuow_begin s1);
          res = dropLoopWithTimestamp X dbce colls OK s2
      in case fst res of
           Returns firstError \<Rightarrow>
             (case heap (snd res) dbce of
                None \<Rightarrow> (Fatal ''dangling entry'', snd res)
              | Some d \<Rightarrow>
                  if collNamespaces d \<noteq> [] then (Fatal ''invariant: toDrop.empty()'', snd res)
                  else
                    let s3 = registerChange (RemoveDBChange (dbName d) dbce) (snd res);
                        s4 = s3\<lparr>dbs := AList.delete (dbName d) (dbs s3)\<rparr>
                    in (Returns firstError, removeCommitTimestamp (wuow_commit toplevel s4)))
         | Throws x \<Rightarrow> (Throws x, removeCommitTimestamp (wuow_abort toplevel (snd res)))
         | Fatal m \<Rightarrow> (Fatal m, snd res))"

text \<open>
  \<open>std::partition\<close>: the elements that satisfy the predicate, then the others. The
  standard leaves the order inside each range open; the model keeps the order of the
  list.
\<close>

definition std_partition :: "('a \<Rightarrow> bool) \<Rightarrow> 'a list \<Rightarrow> 'a list \<times> 'a list" where
  "std_partition p xs = (filter p xs, filter (\<lambda>x. \<not> p x) xs)"

definition dropDatabase :: "collaborators \<Rightarrow> string \<Rightarrow> state \<Rightarrow> status outcome \<times> state" where
  "dropDatabase X db s =
     (case map_of (dbs s) db of
        None \<Rightarrow> (Returns (Error NamespaceNotFound ''db not found to drop''), s)
      | Some Null \<Rightarrow> (Fatal ''null entry'', s)
      | Some (Addr entry) \<Rightarrow>
          (case heap s entry of
             None \<Rightarrow> (Fatal ''dangling entry'', s)
           | Some d \<Rightarrow>
               let toDrop = collNamespaces d;
                   parts = std_partition (\<lambda>dropNs. \<not> nss_isDropPendingNamespace X dropNs) toDrop;
                   resA = dropCollectionsNoTimestamp X entry (fst parts) s
               in (case fst resA of
                     Returns firstError \<Rightarrow>
                       (let resB = dropCollectionsWithTimestamp X entry (snd parts) (snd resA)
                        in (case fst resB of
                              Returns status \<Rightarrow>
                                (Returns (if isOK firstError then status else firstError), snd resB)
                            | Throws x \<Rightarrow> (Throws x, snd resB)
                            | Fatal m \<Rightarrow> (Fatal m, snd resB)))
                   | Throws x \<Rightarrow> (Throws x, snd resA)
                   | Fatal m \<Rightarrow> (Fatal m, snd resA))))"

subsection \<open>repairRecordStore\<close>

definition repairRecordStore :: "collaborators \<Rightarrow> ns \<Rightarrow> state \<Rightarrow> status outcome \<times> state" where
  "repairRecordStore X n s =
     (case catalog s of
        None \<Rightarrow> (Fatal ''null _catalog'', s)
      | Some c \<Rightarrow>
     (case getCollectionIdent c n of
        None \<Rightarrow> (Fatal ''invariant: unknown namespace'', s)
      | Some ident \<Rightarrow>
     (case engine s of
        None \<Rightarrow> (Fatal ''null _engine'', s)
      | Some e \<Rightarrow>
          let status = fst (engine_repairIdent X e ident);
              s1 = s\<lparr>engine := Some (snd (engine_repairIdent X e ident)),
                     trace := trace s @ [EvRepairIdent ident]\<rparr>
          in if \<not> isOK status then (Returns status, s1)
             else
               (case map_of (dbs s1) (nsToDatabase n) of
                  Some (Addr a) \<Rightarrow>
                    (case heap s1 a of
                       None \<Rightarrow> (Fatal ''dangling entry'', s1)
                     | Some d \<Rightarrow>
                         (Returns OK,
                          s1\<lparr>heap := (heap s1)
                                 (a \<mapsto> d\<lparr>collNamespaces := dbce_reinitCollectionAfterRepair X d n\<rparr>),
                             trace := trace s1 @ [EvReinitCollectionAfterRepair n]\<rparr>))
                | _ \<Rightarrow> (Fatal ''null entry'', s1\<lparr>dbs := AList.update (nsToDatabase n) Null (dbs s1)\<rparr>)))))"


subsection \<open>Notions used in the statements\<close>

definition afterDropIdent :: "collaborators \<Rightarrow> kv_engine \<Rightarrow> ident \<Rightarrow> state \<Rightarrow> state" where
  "afterDropIdent X e it s =
     (snd (wuow_begin s))\<lparr>engine := Some (snd (engine_dropIdent X e it)),
                          trace := trace (snd (wuow_begin s)) @ [EvDropIdent it]\<rparr>"

definition missingMsg :: "ns \<Rightarrow> ident \<Rightarrow> string" where
  "missingMsg coll identForColl =
     ''Expected collection does not exist. NS: '' @ coll @ '' Ident: '' @ identForColl"

fun change_db :: "change \<Rightarrow> string" where
  "change_db (RemoveDBChange db entry) = db"



definition untimestampedMsg :: "ns \<Rightarrow> string" where
  "untimestampedMsg coll = ''Collection drop is not being timestamped. Namespace: '' @ coll"


subsection \<open>Example inputs\<close>

text \<open>
  Collaborators for the examples: an engine that drops what it is asked to drop and
  repairs the idents it has, a catalog whose user-data idents start with \<open>user.\<close> or
  \<open>idx.\<close>, catalog entries that drop the collections they have, namespaces that are
  replicated outside the \<open>local\<close> database and \<open>system.profile\<close> and drop-pending under
  \<open>system.drop.\<close>, and a logical clock at 7.
\<close>

definition exampleCollaborators :: collaborators where
  "exampleCollaborators =
     \<lparr>engine_newRecoveryUnit = (\<lambda>e. Some (length (engine_idents e))),
      engine_dropIdent = (\<lambda>e i. (OK, e\<lparr>engine_idents := removeAll i (engine_idents e)\<rparr>)),
      engine_repairIdent = (\<lambda>e i. (if i \<in> set (engine_idents e) then OK
                                      else Error (OtherError 0) ''no such ident'', e)),
      catalog_isUserDataIdent = (\<lambda>i. take 5 i = ''user.'' \<or> take 4 i = ''idx.''),
      dbce_dropCollection = (\<lambda>d n. if n \<in> set (collNamespaces d)
                                     then (Returned OK, removeAll n (collNamespaces d))
                                     else (Returned (Error NamespaceNotFound ''cannnot find collection to drop''),
                                           collNamespaces d)),
      dbce_reinitCollectionAfterRepair = (\<lambda>d n. collNamespaces d),
      nss_isReplicated = (\<lambda>n. nsToDatabase n \<noteq> ''local'' \<and> nss_coll n \<noteq> ''system.profile''),
      nss_isDropPendingNamespace = (\<lambda>n. startsWith (nss_coll n) ''system.drop.''),
      getClusterTime = 7\<rparr>"

text \<open>The same, with entries that report an error for \<open>system.profile\<close> and still forget it.\<close>

definition flakyCollaborators :: collaborators where
  "flakyCollaborators =
     exampleCollaborators
       \<lparr>dbce_dropCollection :=
          (\<lambda>d n. (if nss_coll n = ''system.profile''
                   then Returned (Error (OtherError 1) ''drop failed'') else Returned OK,
                  removeAll n (collNamespaces d)))\<rparr>"

definition stateWith :: "ident list \<Rightarrow> kv_catalog \<Rightarrow> state" where
  "stateWith engineIdents cat =
     \<lparr>engine = Some \<lparr>engine_idents = engineIdents, engine_shut = False\<rparr>,
      catalog = Some cat,
      dbs = [], initialDataTimestamp = nullTimestamp, inBackupMode = False,
      heap = Map.empty, nextAddr = 0,
      commitTimestamp = nullTimestamp, inUnitOfWork = False, changes = [], trace = []\<rparr>"

text \<open>The engine has a table \<open>user.B\<close> that the catalog does not know.\<close>

definition orphanCatalog :: kv_catalog where
  "orphanCatalog = [\<lparr>ce_ns = ''db.a'', ce_ident = ''user.A'', ce_indexes = []\<rparr>]"

definition orphanState :: state where
  "orphanState = stateWith [''_mdb_catalog'', ''user.A'', ''user.B''] orphanCatalog"

text \<open>The catalog has a collection \<open>db.c\<close> whose table \<open>user.C\<close> the engine does not have.\<close>

definition missingCollectionCatalog :: kv_catalog where
  "missingCollectionCatalog = [\<lparr>ce_ns = ''db.c'', ce_ident = ''user.C'', ce_indexes = [(''i'', ''idx.I'')]\<rparr>]"

definition missingCollectionState :: state where
  "missingCollectionState = stateWith [''_mdb_catalog''] missingCollectionCatalog"

text \<open>The engine has the table of \<open>db.c\<close> and not the table \<open>idx.I\<close> of its index \<open>i\<close>.\<close>

definition missingIndexState :: state where
  "missingIndexState = stateWith [''_mdb_catalog'', ''user.C''] missingCollectionCatalog"

text \<open>
  A database \<open>d\<close> with two drop-pending collections and \<open>system.profile\<close>, in
  stable-checkpoint mode, with no commit timestamp set and no unit of work open.
\<close>

definition dropState :: state where
  "dropState =
     (stateWith [''_mdb_catalog''] [])
       \<lparr>dbs := [(''d'', Addr 0)],
        heap := [0 \<mapsto> \<lparr>dbName = ''d'',
                         collNamespaces = [''d.system.drop.a'', ''d.system.profile'', ''d.system.drop.b'']\<rparr>],
        nextAddr := 1,
        initialDataTimestamp := 5\<rparr>"

text \<open>Entries whose \<open>dropCollection\<close> throws.\<close>

definition throwingCollaborators :: collaborators where
  "throwingCollaborators =
     exampleCollaborators
       \<lparr>dbce_dropCollection := (\<lambda>d n. (Threw ''WriteConflict'', collNamespaces d))\<rparr>"

text \<open>The same database on a secondary: a commit timestamp is set on entry.\<close>

definition secondaryDropState :: state where
  "secondaryDropState = dropState\<lparr>commitTimestamp := 9\<rparr>"

text \<open>The same database, dropped inside a unit of work that the caller has open.\<close>

definition nestedDropState :: state where
  "nestedDropState = dropState\<lparr>inUnitOfWork := True\<rparr>"


section \<open>Lemmas\<close>

subsection \<open>Units of work and the calls on a catalog entry\<close>

lemma fold_change_commit_frame:
  "trace (fold change_commit cs s) = trace s \<and> engine (fold change_commit cs s) = engine s
   \<and> catalog (fold change_commit cs s) = catalog s \<and> dbs (fold change_commit cs s) = dbs s
   \<and> commitTimestamp (fold change_commit cs s) = commitTimestamp s
   \<and> initialDataTimestamp (fold change_commit cs s) = initialDataTimestamp s
   \<and> nextAddr (fold change_commit cs s) = nextAddr s"
proof (induction cs arbitrary: s)
  case Nil
  show ?case by simp
next
  case (Cons c cs)
  obtain db a where c: "c = RemoveDBChange db a" by (cases c)
  show ?case using Cons[of "change_commit c s"] by (simp add: c)
qed

lemma fold_change_rollback_frame:
  "trace (fold change_rollback cs s) = trace s \<and> engine (fold change_rollback cs s) = engine s
   \<and> catalog (fold change_rollback cs s) = catalog s \<and> heap (fold change_rollback cs s) = heap s
   \<and> commitTimestamp (fold change_rollback cs s) = commitTimestamp s
   \<and> initialDataTimestamp (fold change_rollback cs s) = initialDataTimestamp s
   \<and> nextAddr (fold change_rollback cs s) = nextAddr s"
proof (induction cs arbitrary: s)
  case Nil
  show ?case by simp
next
  case (Cons c cs)
  obtain db a where c: "c = RemoveDBChange db a" by (cases c)
  show ?case using Cons[of "change_rollback c s"] by (simp add: c)
qed

lemma commitTimestamp_wuow_commit: "commitTimestamp (wuow_commit t s) = commitTimestamp s"
  by (simp add: wuow_commit_def commitUnitOfWork_def Let_def fold_change_commit_frame)

lemma commitTimestamp_wuow_abort: "commitTimestamp (wuow_abort t s) = commitTimestamp s"
  by (simp add: wuow_abort_def abortUnitOfWork_def Let_def fold_change_rollback_frame)

lemma trace_wuow_commit: "trace (wuow_commit t s) = trace s @ [EvWuowCommit]"
  by (simp add: wuow_commit_def commitUnitOfWork_def Let_def fold_change_commit_frame)

lemma engine_wuow_commit: "engine (wuow_commit t s) = engine s"
  by (simp add: wuow_commit_def commitUnitOfWork_def Let_def fold_change_commit_frame)

text \<open>One call of dropCollection on the handle.\<close>

lemma dbce_call_frame:
  "commitTimestamp (snd (dbce_call_dropCollection X a coll s)) = commitTimestamp s
   \<and> initialDataTimestamp (snd (dbce_call_dropCollection X a coll s)) = initialDataTimestamp s
   \<and> dbs (snd (dbce_call_dropCollection X a coll s)) = dbs s
   \<and> changes (snd (dbce_call_dropCollection X a coll s)) = changes s
   \<and> inUnitOfWork (snd (dbce_call_dropCollection X a coll s)) = inUnitOfWork s
   \<and> nextAddr (snd (dbce_call_dropCollection X a coll s)) = nextAddr s"
  by (simp add: dbce_call_dropCollection_def split: option.split)


lemma outcome_of_call_not_Fatal: "outcome_of_call c \<noteq> Fatal m"
  by (cases c) simp_all


lemma dbce_call_trace:
  "trace (snd (dbce_call_dropCollection X a coll s)) = trace s
   \<or> (\<exists>res. trace (snd (dbce_call_dropCollection X a coll s)) = trace s @ [EvDropCollection coll res])"
  by (simp add: dbce_call_dropCollection_def split: option.splits)

lemma dbce_call_Fatal:
  "fst (dbce_call_dropCollection X a coll s) = Fatal m \<Longrightarrow> m = ''dangling entry'' \<and> heap s a = None"
  by (auto simp: dbce_call_dropCollection_def outcome_of_call_not_Fatal split: option.splits)

lemma dbce_call_dbName:
  "map_option dbName (heap (snd (dbce_call_dropCollection X a coll s)) b) = map_option dbName (heap s b)"
  by (simp add: dbce_call_dropCollection_def split: option.splits)

text \<open>The two loops.\<close>

lemma dropLoopWithTimestamp_frame:
  "commitTimestamp (snd (dropLoopWithTimestamp X a colls fe s)) = commitTimestamp s
   \<and> initialDataTimestamp (snd (dropLoopWithTimestamp X a colls fe s)) = initialDataTimestamp s
   \<and> dbs (snd (dropLoopWithTimestamp X a colls fe s)) = dbs s
   \<and> changes (snd (dropLoopWithTimestamp X a colls fe s)) = changes s
   \<and> inUnitOfWork (snd (dropLoopWithTimestamp X a colls fe s)) = inUnitOfWork s
   \<and> nextAddr (snd (dropLoopWithTimestamp X a colls fe s)) = nextAddr s"
proof (induction colls arbitrary: fe s)
  case Nil
  show ?case by simp
next
  case (Cons coll rest)
  show ?case
  proof (cases "fst (dbce_call_dropCollection X a coll s)")
    case (Returns result)
    then show ?thesis
      using Cons[of "if \<not> isOK result \<and> isOK fe then result else fe" "snd (dbce_call_dropCollection X a coll s)"]
      by (simp add: dbce_call_frame)
  next
    case (Throws x)
    then show ?thesis by (simp add: dbce_call_frame)
  next
    case (Fatal m)
    then show ?thesis by (simp add: dbce_call_frame)
  qed
qed

lemma dropLoopNoTimestamp_frame:
  "commitTimestamp (snd (dropLoopNoTimestamp X a colls fe s)) = commitTimestamp s
   \<and> initialDataTimestamp (snd (dropLoopNoTimestamp X a colls fe s)) = initialDataTimestamp s
   \<and> dbs (snd (dropLoopNoTimestamp X a colls fe s)) = dbs s
   \<and> changes (snd (dropLoopNoTimestamp X a colls fe s)) = changes s
   \<and> inUnitOfWork (snd (dropLoopNoTimestamp X a colls fe s)) = inUnitOfWork s
   \<and> nextAddr (snd (dropLoopNoTimestamp X a colls fe s)) = nextAddr s"
proof (induction colls arbitrary: fe s)
  case Nil
  show ?case by simp
next
  case (Cons coll rest)
  show ?case
  proof (cases "initialDataTimestamp s \<noteq> kAllowUnstableCheckpointsSentinel \<and> \<not> mayDropUntimestamped X coll")
    case True
    then show ?thesis by simp
  next
    case False
    show ?thesis
    proof (cases "fst (dbce_call_dropCollection X a coll s)")
      case (Returns result)
      then show ?thesis
        using False Cons[of "if \<not> isOK result \<and> isOK fe then result else fe" "snd (dbce_call_dropCollection X a coll s)"]
        by (simp add: dbce_call_frame)
    next
      case (Throws x)
      then show ?thesis using False by (simp add: dbce_call_frame)
    next
      case (Fatal m)
      then show ?thesis using False by (simp add: dbce_call_frame)
    qed
  qed
qed









subsection \<open>The loops of reconcileCatalogAndIdents\<close>

lemma set_std_set_of: "set (std_set_of xs) = set xs"
  by (simp add: std_set_of_def)

lemma set_std_set_erase: "set (std_set_erase x xs) = set xs - {x}"
  by (auto simp: std_set_erase_def)

lemma dropUnknownIdents_skip:
  "it \<in> set cat \<or> \<not> catalog_isUserDataIdent X it \<Longrightarrow>
     dropUnknownIdents X cat (it # rest) s = dropUnknownIdents X cat rest s"
  by auto

lemma dropUnknownIdents_null:
  "it \<notin> set cat \<Longrightarrow> catalog_isUserDataIdent X it \<Longrightarrow> engine s = None \<Longrightarrow>
     dropUnknownIdents X cat (it # rest) s = (Fatal ''null _engine'', s)"
  by simp

lemma dropUnknownIdents_drop:
  "it \<notin> set cat \<Longrightarrow> catalog_isUserDataIdent X it \<Longrightarrow> engine s = Some e \<Longrightarrow>
     dropUnknownIdents X cat (it # rest) s =
       (if isOK (fst (engine_dropIdent X e it))
        then dropUnknownIdents X cat rest (wuow_commit (fst (wuow_begin s)) (afterDropIdent X e it s))
        else (Fatal ''fassert 40591'', afterDropIdent X e it s))"
  by (simp add: Let_def afterDropIdent_def)

lemma trace_afterDropIdent: "trace (afterDropIdent X e it s) = trace s @ [EvDropIdent it]"
  by (simp add: afterDropIdent_def wuow_begin_def)

lemma engine_afterDropIdent: "engine (afterDropIdent X e it s) = Some (snd (engine_dropIdent X e it))"
  by (simp add: afterDropIdent_def)

lemma dropUnknownIdents_trace:
  "dropUnknownIdents X cat xs s = (r, s') \<Longrightarrow>
     \<exists>evs. trace s' = trace s @ evs \<and>
       (\<forall>i. EvDropIdent i \<in> set evs \<longrightarrow> i \<in> set xs \<and> i \<notin> set cat \<and> catalog_isUserDataIdent X i) \<and>
       (r = Returns () \<longrightarrow>
          (\<forall>i \<in> set xs. i \<notin> set cat \<and> catalog_isUserDataIdent X i \<longrightarrow> EvDropIdent i \<in> set evs))"
proof (induction xs arbitrary: s)
  case Nil
  then show ?case by simp
next
  case (Cons it rest)
  show ?case
  proof (cases "it \<in> set cat \<or> \<not> catalog_isUserDataIdent X it")
    case True
    then have "dropUnknownIdents X cat rest s = (r, s')"
      using Cons.prems by (simp only: dropUnknownIdents_skip)
    from Cons.IH[OF this] obtain evs where
      e1: "trace s' = trace s @ evs" and
      e2: "\<And>i. EvDropIdent i \<in> set evs \<Longrightarrow> i \<in> set rest \<and> i \<notin> set cat \<and> catalog_isUserDataIdent X i" and
      e3: "\<And>i. r = Returns () \<Longrightarrow> i \<in> set rest \<Longrightarrow> i \<notin> set cat \<Longrightarrow> catalog_isUserDataIdent X i
              \<Longrightarrow> EvDropIdent i \<in> set evs"
      by blast
    have c2: "\<forall>i. EvDropIdent i \<in> set evs \<longrightarrow>
                i \<in> set (it # rest) \<and> i \<notin> set cat \<and> catalog_isUserDataIdent X i"
      using e2 by simp
    have c3: "r = Returns () \<longrightarrow>
          (\<forall>i \<in> set (it # rest). i \<notin> set cat \<and> catalog_isUserDataIdent X i \<longrightarrow> EvDropIdent i \<in> set evs)"
    proof (intro impI ballI)
      fix i assume r: "r = Returns ()" and i: "i \<in> set (it # rest)"
        and o: "i \<notin> set cat \<and> catalog_isUserDataIdent X i"
      from True o have "i \<noteq> it" by blast
      with i have "i \<in> set rest" by simp
      with e3[OF r] o show "EvDropIdent i \<in> set evs" by blast
    qed
    from e1 c2 c3 show ?thesis by blast
  next
    case False
    then have nc: "it \<notin> set cat" and ud: "catalog_isUserDataIdent X it" by auto
    show ?thesis
    proof (cases "engine s")
      case None
      from Cons.prems have "r = Fatal ''null _engine''" "s' = s"
        by (simp_all only: dropUnknownIdents_null[OF nc ud None] prod.inject)
      then show ?thesis by simp
    next
      case (Some e)
      note unf = dropUnknownIdents_drop[OF nc ud Some, of rest]
      show ?thesis
      proof (cases "isOK (fst (engine_dropIdent X e it))")
        case False
        with unf Cons.prems have r: "r = Fatal ''fassert 40591''" and s': "s' = afterDropIdent X e it s"
          by simp_all
        have c1: "trace s' = trace s @ [EvDropIdent it]" by (simp add: s' trace_afterDropIdent)
        have c2: "\<forall>i. EvDropIdent i \<in> set [EvDropIdent it] \<longrightarrow>
                i \<in> set (it # rest) \<and> i \<notin> set cat \<and> catalog_isUserDataIdent X i"
          using nc ud by simp
        have c3: "r = Returns () \<longrightarrow>
          (\<forall>i \<in> set (it # rest). i \<notin> set cat \<and> catalog_isUserDataIdent X i \<longrightarrow>
              EvDropIdent i \<in> set [EvDropIdent it])"
          using r by simp
        from c1 c2 c3 show ?thesis by blast
      next
        case True
        let ?s3 = "wuow_commit (fst (wuow_begin s)) (afterDropIdent X e it s)"
        let ?evs0 = "[EvDropIdent it, EvWuowCommit]"
        have tr3: "trace ?s3 = trace s @ ?evs0"
          by (simp add: trace_wuow_commit trace_afterDropIdent)
        have rec: "dropUnknownIdents X cat rest ?s3 = (r, s')"
          using unf True Cons.prems by simp
        from Cons.IH[OF rec]
        obtain evs where
          e1: "trace s' = trace ?s3 @ evs" and
          e2: "\<And>i. EvDropIdent i \<in> set evs \<Longrightarrow> i \<in> set rest \<and> i \<notin> set cat \<and> catalog_isUserDataIdent X i" and
          e3: "\<And>i. r = Returns () \<Longrightarrow> i \<in> set rest \<Longrightarrow> i \<notin> set cat \<Longrightarrow> catalog_isUserDataIdent X i
              \<Longrightarrow> EvDropIdent i \<in> set evs"
          by blast
        have c1: "trace s' = trace s @ (?evs0 @ evs)"
          by (simp add: e1 tr3)
        have c2: "\<forall>i. EvDropIdent i \<in> set (?evs0 @ evs) \<longrightarrow>
                i \<in> set (it # rest) \<and> i \<notin> set cat \<and> catalog_isUserDataIdent X i"
        proof (intro allI impI)
          fix i assume "EvDropIdent i \<in> set (?evs0 @ evs)"
          then have "i = it \<or> EvDropIdent i \<in> set evs" by simp
          then show "i \<in> set (it # rest) \<and> i \<notin> set cat \<and> catalog_isUserDataIdent X i"
          proof
            assume "i = it" with nc ud show ?thesis by simp
          next
            assume "EvDropIdent i \<in> set evs" from e2[OF this] show ?thesis by simp
          qed
        qed
        have c3: "r = Returns () \<longrightarrow>
          (\<forall>i \<in> set (it # rest). i \<notin> set cat \<and> catalog_isUserDataIdent X i \<longrightarrow>
              EvDropIdent i \<in> set (?evs0 @ evs))"
        proof (intro impI ballI)
          fix i assume r: "r = Returns ()" and i: "i \<in> set (it # rest)"
            and o: "i \<notin> set cat \<and> catalog_isUserDataIdent X i"
          show "EvDropIdent i \<in> set (?evs0 @ evs)"
          proof (cases "i = it")
            case True then show ?thesis by simp
          next
            case False
            with i have "i \<in> set rest" by simp
            with e3[OF r] o show ?thesis by simp
          qed
        qed
        from c1 c2 c3 show ?thesis by blast
      qed
    qed
  qed
qed

lemma dropUnknownIdents_outcome:
  "dropUnknownIdents X cat xs s = (r, s') \<Longrightarrow> engine s \<noteq> None \<Longrightarrow>
     r = Returns () \<or> r = Fatal ''fassert 40591''"
proof (induction xs arbitrary: s)
  case Nil
  then show ?case by simp
next
  case (Cons it rest)
  show ?case
  proof (cases "it \<in> set cat \<or> \<not> catalog_isUserDataIdent X it")
    case True
    then have "dropUnknownIdents X cat rest s = (r, s')"
      using Cons.prems by (simp only: dropUnknownIdents_skip)
    from Cons.IH[OF this Cons.prems(2)] show ?thesis .
  next
    case False
    then have nc: "it \<notin> set cat" and ud: "catalog_isUserDataIdent X it" by auto
    from Cons.prems(2) obtain e where Some: "engine s = Some e" by auto
    note unf = dropUnknownIdents_drop[OF nc ud Some, of rest]
    show ?thesis
    proof (cases "isOK (fst (engine_dropIdent X e it))")
      case False
      with unf Cons.prems show ?thesis by auto
    next
      case True
      let ?s3 = "wuow_commit (fst (wuow_begin s)) (afterDropIdent X e it s)"
      have rec: "dropUnknownIdents X cat rest ?s3 = (r, s')"
        using unf True Cons.prems by simp
      have "engine ?s3 \<noteq> None" by (simp add: engine_wuow_commit engine_afterDropIdent)
      from Cons.IH[OF rec this] show ?thesis .
    qed
  qed
qed

text \<open>With an engine that never refuses a drop, the first loop runs to its end.\<close>

lemma dropUnknownIdents_returns:
  assumes ok: "\<And>e i. isOK (fst (engine_dropIdent X e i))"
  shows "engine s \<noteq> None \<Longrightarrow> fst (dropUnknownIdents X cat xs s) = Returns ()"
proof (induction xs arbitrary: s)
  case Nil
  then show ?case by simp
next
  case (Cons it rest)
  show ?case
  proof (cases "it \<in> set cat \<or> \<not> catalog_isUserDataIdent X it")
    case True
    have "dropUnknownIdents X cat (it # rest) s = dropUnknownIdents X cat rest s"
      using True by (rule dropUnknownIdents_skip)
    with Cons.IH[OF Cons.prems] show ?thesis by simp
  next
    case False
    then have nc: "it \<notin> set cat" and ud: "catalog_isUserDataIdent X it" by auto
    from Cons.prems obtain e where Some: "engine s = Some e" by auto
    note unf = dropUnknownIdents_drop[OF nc ud Some, of rest]
    let ?s3 = "wuow_commit (fst (wuow_begin s)) (afterDropIdent X e it s)"
    have "engine ?s3 \<noteq> None" by (simp add: engine_wuow_commit engine_afterDropIdent)
    from Cons.IH[OF this] have "fst (dropUnknownIdents X cat rest ?s3) = Returns ()" .
    with unf ok[of e it] show ?thesis by simp
  qed
qed

lemma find_ns:
  "n \<in> set (getAllCollections c) \<Longrightarrow> \<exists>e. find (\<lambda>e. ce_ns e = n) c = Some e \<and> ce_ns e = n \<and> e \<in> set c"
  by (induction c) (auto simp: getAllCollections_def)

lemma getCollectionIdent_known:
  "n \<in> set (getAllCollections c) \<Longrightarrow> \<exists>i. getCollectionIdent c n = Some i"
  using find_ns[of n c] by (auto simp: getCollectionIdent_def)

lemma checkCollections_ok:
  "\<forall>n \<in> set colls. \<exists>i. getCollectionIdent c n = Some i \<and> i \<in> set E \<Longrightarrow>
     checkCollections c E colls = Returns OK"
  by (induction colls) auto

lemma checkCollections_err:
  "set colls \<subseteq> set (getAllCollections c) \<Longrightarrow>
   n \<in> set colls \<Longrightarrow> getCollectionIdent c n = Some i \<Longrightarrow> i \<notin> set E \<Longrightarrow>
     \<exists>pre n' i' post. colls = pre @ n' # post \<and>
        (\<forall>m \<in> set pre. \<exists>j. getCollectionIdent c m = Some j \<and> j \<in> set E) \<and>
        getCollectionIdent c n' = Some i' \<and> i' \<notin> set E \<and>
        checkCollections c E colls = Returns (Error UnrecoverableRollbackError (missingMsg n' i'))"
proof (induction colls)
  case Nil
  then show ?case by simp
next
  case (Cons a colls)
  from Cons.prems(1) have "a \<in> set (getAllCollections c)" by simp
  then obtain j where j: "getCollectionIdent c a = Some j"
    using getCollectionIdent_known by blast
  show ?case
  proof (cases "j \<in> set E")
    case False
    have "checkCollections c E (a # colls) = Returns (Error UnrecoverableRollbackError (missingMsg a j))"
      using j False by (simp add: missingMsg_def)
    with j False show ?thesis by (intro exI[of _ "[]"] exI[of _ a] exI[of _ j] exI[of _ colls]) simp
  next
    case True
    with j Cons.prems have "n \<noteq> a" by auto
    with Cons.prems have "n \<in> set colls" "set colls \<subseteq> set (getAllCollections c)" by auto
    from Cons.IH[OF this(2) this(1) Cons.prems(3,4)]
    obtain pre n' i' post where
      a1: "colls = pre @ n' # post" and
      a2: "\<forall>m \<in> set pre. \<exists>j. getCollectionIdent c m = Some j \<and> j \<in> set E" and
      a3: "getCollectionIdent c n' = Some i'" "i' \<notin> set E" and
      a4: "checkCollections c E colls = Returns (Error UnrecoverableRollbackError (missingMsg n' i'))"
      by blast
    have b1: "a # colls = (a # pre) @ n' # post" using a1 by simp
    have b2: "\<forall>m \<in> set (a # pre). \<exists>j. getCollectionIdent c m = Some j \<and> j \<in> set E"
      using a2 j True by simp
    have b4: "checkCollections c E (a # colls) = Returns (Error UnrecoverableRollbackError (missingMsg n' i'))"
      using a4 j True by simp
    from b1 b2 a3 b4 show ?thesis by blast
  qed
qed

lemma missingIndexes_eq:
  "find (\<lambda>e. ce_ns e = coll) c = Some e \<Longrightarrow> set names \<subseteq> fst ` set (ce_indexes e) \<Longrightarrow>
     missingIndexes c E coll names =
       Returns (map (Pair coll)
         (filter (\<lambda>nm. \<exists>i. getIndexIdent c coll nm = Some i \<and> i \<notin> set E) names))"
proof (induction names)
  case Nil
  then show ?case by simp
next
  case (Cons nm names)
  from Cons.prems(2) have "nm \<in> fst ` set (ce_indexes e)" by simp
  then have "map_of (ce_indexes e) nm \<noteq> None" by (simp add: map_of_eq_None_iff)
  then obtain i where i: "getIndexIdent c coll nm = Some i"
    using Cons.prems(1) by (auto simp: getIndexIdent_def)
  from Cons.prems have "missingIndexes c E coll names =
       Returns (map (Pair coll)
         (filter (\<lambda>nm. \<exists>i. getIndexIdent c coll nm = Some i \<and> i \<notin> set E) names))"
    by (intro Cons.IH) auto
  with i show ?case by simp
qed

lemma indexesToRebuild_set:
  "set colls \<subseteq> set (getAllCollections c) \<Longrightarrow>
     \<exists>ret. indexesToRebuild c E colls = Returns ret \<and>
       set ret = {(n, nm). n \<in> set colls \<and>
                    (\<exists>names i. getMetaData_indexes c n = Some names \<and> nm \<in> set names \<and>
                       getIndexIdent c n nm = Some i \<and> i \<notin> set E)}"
proof (induction colls)
  case Nil
  then show ?case by simp
next
  case (Cons coll colls)
  from Cons.prems have "coll \<in> set (getAllCollections c)" by simp
  from find_ns[OF this] obtain e where e: "find (\<lambda>e. ce_ns e = coll) c = Some e" by blast
  then have md: "getMetaData_indexes c coll = Some (map fst (ce_indexes e))"
    by (simp add: getMetaData_indexes_def)
  have mi: "missingIndexes c E coll (map fst (ce_indexes e)) =
       Returns (map (Pair coll)
         (filter (\<lambda>nm. \<exists>i. getIndexIdent c coll nm = Some i \<and> i \<notin> set E) (map fst (ce_indexes e))))"
    by (rule missingIndexes_eq[OF e]) simp
  from Cons.prems have "set colls \<subseteq> set (getAllCollections c)" by simp
  from Cons.IH[OF this] obtain ret where
    r1: "indexesToRebuild c E colls = Returns ret" and
    r2: "set ret = {(n, nm). n \<in> set colls \<and>
                    (\<exists>names i. getMetaData_indexes c n = Some names \<and> nm \<in> set names \<and>
                       getIndexIdent c n nm = Some i \<and> i \<notin> set E)}"
    by blast
  let ?here = "map (Pair coll)
         (filter (\<lambda>nm. \<exists>i. getIndexIdent c coll nm = Some i \<and> i \<notin> set E) (map fst (ce_indexes e)))"
  have eq: "indexesToRebuild c E (coll # colls) = Returns (?here @ ret)"
    using md mi r1 by simp
  have "set (?here @ ret) = {(n, nm). n \<in> set (coll # colls) \<and>
                    (\<exists>names i. getMetaData_indexes c n = Some names \<and> nm \<in> set names \<and>
                       getIndexIdent c n nm = Some i \<and> i \<notin> set E)}"
    using md by (auto simp: r2) (metis fst_conv image_eqI)
  with eq show ?case by blast
qed


lemma set_engineIdents:
  "set (std_set_erase catalogInfo (std_set_of (engine_idents e))) = set (engine_idents e) - {catalogInfo}"
  by (simp add: set_std_set_erase set_std_set_of)

text \<open>What reconcile returns, by the outcome of its three loops.\<close>

lemma reconcile_cases:
  assumes e: "engine s = Some e" and c: "catalog s = Some c"
    and r: "reconcileCatalogAndIdents X s = (r, s')"
  defines "E \<equiv> std_set_erase catalogInfo (std_set_of (engine_idents e))"
  shows "dropUnknownIdents X (std_set_of (getAllIdents_catalog c)) E s = (Fatal ''fassert 40591'', s')
           \<and> r = Fatal ''fassert 40591''
       \<or> dropUnknownIdents X (std_set_of (getAllIdents_catalog c)) E s = (Returns (), s')
           \<and> (checkCollections c E (getAllCollections c) = Returns OK
                \<and> (\<exists>ret. indexesToRebuild c E (getAllCollections c) = Returns ret \<and> r = Returns (Inr ret))
              \<or> (\<exists>code msg. checkCollections c E (getAllCollections c) = Returns (Error code msg)
                    \<and> r = Returns (Inl (Error code msg))))"
proof -
  obtain r1 s1 where d: "dropUnknownIdents X (std_set_of (getAllIdents_catalog c)) E s = (r1, s1)"
    by (cases "dropUnknownIdents X (std_set_of (getAllIdents_catalog c)) E s")
  from dropUnknownIdents_outcome[OF d] e have "r1 = Returns () \<or> r1 = Fatal ''fassert 40591''"
    by simp
  then show ?thesis
  proof
    assume "r1 = Fatal ''fassert 40591''"
    with d r e c show ?thesis by (simp add: reconcileCatalogAndIdents_def E_def)
  next
    assume r1: "r1 = Returns ()"
    obtain ret where ret: "indexesToRebuild c E (getAllCollections c) = Returns ret"
      using indexesToRebuild_set[of "getAllCollections c" c E] by blast
    have "(\<exists>n i. n \<in> set (getAllCollections c) \<and> getCollectionIdent c n = Some i \<and> i \<notin> set E)
       \<or> (\<forall>n \<in> set (getAllCollections c). \<exists>i. getCollectionIdent c n = Some i \<and> i \<in> set E)"
      using getCollectionIdent_known[of _ c] by blast
    then show ?thesis
    proof
      assume "\<exists>n i. n \<in> set (getAllCollections c) \<and> getCollectionIdent c n = Some i \<and> i \<notin> set E"
      then obtain n i where "n \<in> set (getAllCollections c)" "getCollectionIdent c n = Some i" "i \<notin> set E"
        by blast
      from checkCollections_err[OF subset_refl this] obtain msg where
        "checkCollections c E (getAllCollections c) = Returns (Error UnrecoverableRollbackError msg)"
        by blast
      with d r1 r e c show ?thesis by (simp add: reconcileCatalogAndIdents_def E_def)
    next
      assume "\<forall>n \<in> set (getAllCollections c). \<exists>i. getCollectionIdent c n = Some i \<and> i \<in> set E"
      from checkCollections_ok[OF this] ret d r1 r e c show ?thesis
        by (simp add: reconcileCatalogAndIdents_def E_def)
    qed
  qed
qed

lemma getIndexIdent_in_catalog:
  assumes "getIndexIdent c n idx = Some i"
  shows "i \<in> set (getAllIdents_catalog c)"
proof -
  from assms obtain e where e: "find (\<lambda>e. ce_ns e = n) c = Some e" and m: "map_of (ce_indexes e) idx = Some i"
    by (auto simp: getIndexIdent_def split: option.splits)
  from e have "e \<in> set c" by (auto simp: find_Some_iff)
  moreover from m have "(idx, i) \<in> set (ce_indexes e)" by (rule map_of_SomeD)
  then have "i \<in> snd ` set (ce_indexes e)" by force
  ultimately show ?thesis by (auto simp: getAllIdents_catalog_def)
qed

subsection \<open>The phases of dropDatabase\<close>

lemma dropCollectionsNoTimestamp_commitTimestamp:
  assumes "dropCollectionsNoTimestamp X a colls s = (r, s')" and "\<forall>m. r \<noteq> Fatal m"
  shows "commitTimestamp s' = commitTimestamp s"
proof -
  let ?s1 = "if \<not> isNull (commitTimestamp s) then clearCommitTimestamp s else s"
  let ?res = "dropLoopNoTimestamp X a colls OK (snd (wuow_begin ?s1))"
  show ?thesis
  proof (cases "fst ?res")
    case (Returns fe)
    with assms(1) have "s' = (if \<not> isNull (commitTimestamp s) then setCommitTimestamp (commitTimestamp s)
                 (wuow_commit (fst (wuow_begin ?s1)) (snd ?res)) else wuow_commit (fst (wuow_begin ?s1)) (snd ?res))"
      by (simp add: dropCollectionsNoTimestamp_def Let_def)
    then show ?thesis
      by (simp add: setCommitTimestamp_def commitTimestamp_wuow_commit dropLoopNoTimestamp_frame
          wuow_begin_def)
  next
    case (Throws x)
    with assms(1) have "s' = (if \<not> isNull (commitTimestamp s) then setCommitTimestamp (commitTimestamp s)
                 (wuow_abort (fst (wuow_begin ?s1)) (snd ?res)) else wuow_abort (fst (wuow_begin ?s1)) (snd ?res))"
      by (simp add: dropCollectionsNoTimestamp_def Let_def)
    then show ?thesis
      by (simp add: setCommitTimestamp_def commitTimestamp_wuow_abort dropLoopNoTimestamp_frame
          wuow_begin_def)
  next
    case (Fatal m)
    with assms(1) have "r = Fatal m" by (simp add: dropCollectionsNoTimestamp_def Let_def)
    with assms(2) show ?thesis by simp
  qed
qed

lemma dropCollectionsWithTimestamp_commitTimestamp:
  assumes "dropCollectionsWithTimestamp X a colls s = (r, s')" and "\<forall>m. r \<noteq> Fatal m"
  shows "commitTimestamp s' = commitTimestamp s"
proof -
  let ?set = "isNull (commitTimestamp s) \<and> \<not> isNull (getClusterTime X)"
  let ?s1 = "if ?set then setCommitTimestamp (getClusterTime X) s else s"
  let ?t = "fst (wuow_begin ?s1)"
  let ?res = "dropLoopWithTimestamp X a colls OK (snd (wuow_begin ?s1))"
  have loop: "commitTimestamp (snd ?res) = commitTimestamp ?s1"
    by (simp add: dropLoopWithTimestamp_frame wuow_begin_def)
  show ?thesis
  proof (cases "fst ?res")
    case (Returns fe)
    show ?thesis
    proof (cases "heap (snd ?res) a")
      case None
      with Returns assms(1) have "r = Fatal ''dangling entry''"
        by (simp add: dropCollectionsWithTimestamp_def Let_def)
      with assms(2) show ?thesis by simp
    next
      case (Some d)
      show ?thesis
      proof (cases "collNamespaces d = []")
        case False
        with Some Returns assms(1) have "r = Fatal ''invariant: toDrop.empty()''"
          by (simp add: dropCollectionsWithTimestamp_def Let_def)
        with assms(2) show ?thesis by simp
      next
        case True
        let ?s3 = "registerChange (RemoveDBChange (dbName d) a) (snd ?res)"
        let ?s4 = "?s3\<lparr>dbs := AList.delete (dbName d) (dbs ?s3)\<rparr>"
        from True Some Returns assms(1) have
          "s' = (if ?set then clearCommitTimestamp (wuow_commit ?t ?s4) else wuow_commit ?t ?s4)"
          by (simp add: dropCollectionsWithTimestamp_def Let_def)
        then show ?thesis using loop
          by (auto simp: clearCommitTimestamp_def setCommitTimestamp_def commitTimestamp_wuow_commit
              registerChange_def isNull_def)
      qed
    qed
  next
    case (Throws x)
    with assms(1) have
      "s' = (if ?set then clearCommitTimestamp (wuow_abort ?t (snd ?res)) else wuow_abort ?t (snd ?res))"
      by (simp add: dropCollectionsWithTimestamp_def Let_def)
    then show ?thesis using loop
      by (auto simp: clearCommitTimestamp_def setCommitTimestamp_def commitTimestamp_wuow_abort
          isNull_def)
  next
    case (Fatal m)
    with assms(1) have "r = Fatal m" by (simp add: dropCollectionsWithTimestamp_def Let_def)
    with assms(2) show ?thesis by simp
  qed
qed


lemma dropLoopWithTimestamp_dbName:
  "map_option dbName (heap (snd (dropLoopWithTimestamp X a colls fe s)) b) = map_option dbName (heap s b)"
proof (induction colls arbitrary: fe s)
  case Nil
  show ?case by simp
next
  case (Cons coll rest)
  show ?case
  proof (cases "fst (dbce_call_dropCollection X a coll s)")
    case (Returns result)
    then show ?thesis
      using Cons[of "if \<not> isOK result \<and> isOK fe then result else fe" "snd (dbce_call_dropCollection X a coll s)"]
      by (simp add: dbce_call_dbName)
  next
    case (Throws x)
    then show ?thesis by (simp add: dbce_call_dbName)
  next
    case (Fatal m)
    then show ?thesis by (simp add: dbce_call_dbName)
  qed
qed

lemma dropLoopNoTimestamp_dbName:
  "map_option dbName (heap (snd (dropLoopNoTimestamp X a colls fe s)) b) = map_option dbName (heap s b)"
proof (induction colls arbitrary: fe s)
  case Nil
  show ?case by simp
next
  case (Cons coll rest)
  show ?case
  proof (cases "initialDataTimestamp s \<noteq> kAllowUnstableCheckpointsSentinel \<and> \<not> mayDropUntimestamped X coll")
    case True
    then show ?thesis by simp
  next
    case False
    show ?thesis
    proof (cases "fst (dbce_call_dropCollection X a coll s)")
      case (Returns result)
      then show ?thesis
        using False Cons[of "if \<not> isOK result \<and> isOK fe then result else fe" "snd (dbce_call_dropCollection X a coll s)"]
        by (simp add: dbce_call_dbName)
    next
      case (Throws x)
      then show ?thesis using False by (simp add: dbce_call_dbName)
    next
      case (Fatal m)
      then show ?thesis using False by (simp add: dbce_call_dbName)
    qed
  qed
qed

text \<open>What the first loop calls, whatever its outcome.\<close>

lemma dropLoopNoTimestamp_trace:
  "\<exists>evs. trace (snd (dropLoopNoTimestamp X a colls fe s)) = trace s @ evs \<and>
      (\<forall>ev \<in> set evs. \<exists>n res. ev = EvDropCollection n res \<and> n \<in> set colls \<and>
          (initialDataTimestamp s \<noteq> kAllowUnstableCheckpointsSentinel \<longrightarrow> mayDropUntimestamped X n))"
proof (induction colls arbitrary: fe s)
  case Nil
  show ?case by simp
next
  case (Cons coll rest)
  let ?c = "dbce_call_dropCollection X a coll s"
  show ?case
  proof (cases "initialDataTimestamp s \<noteq> kAllowUnstableCheckpointsSentinel \<and> \<not> mayDropUntimestamped X coll")
    case True
    then show ?thesis by simp
  next
    case False
    from dbce_call_trace[of X a coll s] obtain evs0 where
      t0: "trace (snd ?c) = trace s @ evs0" and
      e0: "\<forall>ev \<in> set evs0. \<exists>res. ev = EvDropCollection coll res"
      by (elim disjE exE) (rule that[of "[]"], simp, simp, rule that, assumption, simp)
    show ?thesis
    proof (cases "fst ?c")
      case (Returns result)
      let ?fe1 = "if \<not> isOK result \<and> isOK fe then result else fe"
      from Cons[of ?fe1 "snd ?c"] obtain evs where
        t: "trace (snd (dropLoopNoTimestamp X a rest ?fe1 (snd ?c))) = trace (snd ?c) @ evs" and
        e: "\<forall>ev \<in> set evs. \<exists>n res. ev = EvDropCollection n res \<and> n \<in> set rest \<and>
          (initialDataTimestamp (snd ?c) \<noteq> kAllowUnstableCheckpointsSentinel \<longrightarrow> mayDropUntimestamped X n)"
        by blast
      have eq: "dropLoopNoTimestamp X a (coll # rest) fe s = dropLoopNoTimestamp X a rest ?fe1 (snd ?c)"
        using False Returns by auto
      have t': "trace (snd (dropLoopNoTimestamp X a (coll # rest) fe s)) = trace s @ (evs0 @ evs)"
        using t t0 eq by simp
      have e': "\<forall>ev \<in> set (evs0 @ evs). \<exists>n res. ev = EvDropCollection n res \<and> n \<in> set (coll # rest) \<and>
          (initialDataTimestamp s \<noteq> kAllowUnstableCheckpointsSentinel \<longrightarrow> mayDropUntimestamped X n)"
        using e e0 False by (auto simp: dbce_call_frame)
      from t' e' show ?thesis by blast
    next
      case (Throws x)
      then have eq: "dropLoopNoTimestamp X a (coll # rest) fe s = (Throws x, snd ?c)"
        using False by auto
      have "\<forall>ev \<in> set evs0. \<exists>n res. ev = EvDropCollection n res \<and> n \<in> set (coll # rest) \<and>
          (initialDataTimestamp s \<noteq> kAllowUnstableCheckpointsSentinel \<longrightarrow> mayDropUntimestamped X n)"
        using e0 False by auto
      with t0 eq show ?thesis by (intro exI[of _ evs0]) simp
    next
      case (Fatal m)
      then have eq: "dropLoopNoTimestamp X a (coll # rest) fe s = (Fatal m, snd ?c)"
        using False by auto
      have "\<forall>ev \<in> set evs0. \<exists>n res. ev = EvDropCollection n res \<and> n \<in> set (coll # rest) \<and>
          (initialDataTimestamp s \<noteq> kAllowUnstableCheckpointsSentinel \<longrightarrow> mayDropUntimestamped X n)"
        using e0 False by auto
      with t0 eq show ?thesis by (intro exI[of _ evs0]) simp
    qed
  qed
qed

text \<open>How the first loop ends when a namespace fails the invariant's condition.\<close>

lemma dropLoopNoTimestamp_violation:
  "initialDataTimestamp s \<noteq> kAllowUnstableCheckpointsSentinel \<Longrightarrow>
   find (\<lambda>n. \<not> mayDropUntimestamped X n) colls = Some bad \<Longrightarrow>
     fst (dropLoopNoTimestamp X a colls fe s) = Fatal (untimestampedMsg bad)
     \<or> (\<exists>x. fst (dropLoopNoTimestamp X a colls fe s) = Throws x)
     \<or> fst (dropLoopNoTimestamp X a colls fe s) = Fatal ''dangling entry''"
proof (induction colls arbitrary: fe s)
  case Nil
  then show ?case by simp
next
  case (Cons coll rest)
  let ?c = "dbce_call_dropCollection X a coll s"
  show ?case
  proof (cases "mayDropUntimestamped X coll")
    case False
    with Cons.prems show ?thesis by (simp add: untimestampedMsg_def)
  next
    case True
    with Cons.prems have f: "find (\<lambda>n. \<not> mayDropUntimestamped X n) rest = Some bad" by simp
    show ?thesis
    proof (cases "fst ?c")
      case (Returns result)
      let ?fe1 = "if \<not> isOK result \<and> isOK fe then result else fe"
      have "initialDataTimestamp (snd ?c) \<noteq> kAllowUnstableCheckpointsSentinel"
        using Cons.prems(1) by (simp add: dbce_call_frame)
      from Cons.IH[OF this f, of ?fe1] True Returns show ?thesis by simp
    next
      case (Throws x)
      with True show ?thesis by simp
    next
      case (Fatal m)
      from dbce_call_Fatal[OF this] Fatal True show ?thesis by simp
    qed
  qed
qed

lemma dropLoopNoTimestamp_no_violation:
  "\<forall>n \<in> set colls. mayDropUntimestamped X n \<Longrightarrow>
     (\<exists>st. fst (dropLoopNoTimestamp X a colls fe s) = Returns st)
     \<or> (\<exists>x. fst (dropLoopNoTimestamp X a colls fe s) = Throws x)
     \<or> fst (dropLoopNoTimestamp X a colls fe s) = Fatal ''dangling entry''"
proof (induction colls arbitrary: fe s)
  case Nil
  then show ?case by simp
next
  case (Cons coll rest)
  let ?c = "dbce_call_dropCollection X a coll s"
  from Cons.prems have ok: "mayDropUntimestamped X coll" and rest: "\<forall>n \<in> set rest. mayDropUntimestamped X n"
    by simp_all
  show ?case
  proof (cases "fst ?c")
    case (Returns result)
    let ?fe1 = "if \<not> isOK result \<and> isOK fe then result else fe"
    from Cons.IH[OF rest, of ?fe1 "snd ?c"] ok Returns show ?thesis by simp
  next
    case (Throws x)
    with ok show ?thesis by simp
  next
    case (Fatal m)
    from dbce_call_Fatal[OF this] Fatal ok show ?thesis by simp
  qed
qed

lemma dropDatabase_phases:
  fixes X :: collaborators
  assumes "map_of (dbs s) db = Some (Addr a)" and "heap s a = Some d"
  defines "parts \<equiv> std_partition (\<lambda>dropNs. \<not> nss_isDropPendingNamespace X dropNs) (collNamespaces d)"
  defines "resA \<equiv> dropCollectionsNoTimestamp X a (fst parts) s"
  defines "resB \<equiv> dropCollectionsWithTimestamp X a (snd parts) (snd resA)"
  shows "dropDatabase X db s =
         (case fst resA of
            Returns firstError \<Rightarrow>
              (case fst resB of
                 Returns status \<Rightarrow> (Returns (if isOK firstError then status else firstError), snd resB)
               | Throws x \<Rightarrow> (Throws x, snd resB)
               | Fatal m \<Rightarrow> (Fatal m, snd resB))
          | Throws x \<Rightarrow> (Throws x, snd resA)
          | Fatal m \<Rightarrow> (Fatal m, snd resA))"
  using assms(1,2)
  by (simp add: dropDatabase_def Let_def parts_def resA_def resB_def split: outcome.split)

lemma dropDatabase_Returns:
  fixes X :: collaborators
  assumes "map_of (dbs s) db = Some (Addr a)" and "heap s a = Some d"
    and "dropDatabase X db s = (Returns st, s')"
  defines "parts \<equiv> std_partition (\<lambda>dropNs. \<not> nss_isDropPendingNamespace X dropNs) (collNamespaces d)"
  shows "\<exists>feA feB sA.
           dropCollectionsNoTimestamp X a (fst parts) s = (Returns feA, sA) \<and>
           dropCollectionsWithTimestamp X a (snd parts) sA = (Returns feB, s') \<and>
           st = (if isOK feA then feB else feA)"
proof -
  let ?resA = "dropCollectionsNoTimestamp X a (fst parts) s"
  let ?resB = "dropCollectionsWithTimestamp X a (snd parts) (snd ?resA)"
  note unf = dropDatabase_phases[OF assms(1,2), of X, folded parts_def]
  from unf assms(3) obtain feA where A: "fst ?resA = Returns feA"
    by (cases "fst ?resA") simp_all
  from unf assms(3) A obtain feB where B: "fst ?resB = Returns feB"
    by (cases "fst ?resB") simp_all
  from unf assms(3) A B have "st = (if isOK feA then feB else feA)" "s' = snd ?resB" by simp_all
  with A B show ?thesis
    by (intro exI[of _ feA] exI[of _ feB] exI[of _ "snd ?resA"]) (simp add: prod_eq_iff)
qed





lemma dropCollectionsNoTimestamp_nested:
  assumes "inUnitOfWork s" and "dropCollectionsNoTimestamp X a colls s = (Returns fe, s')"
  shows "dbs s' = dbs s \<and> changes s' = changes s \<and> inUnitOfWork s' \<and> nextAddr s' = nextAddr s
         \<and> map_option dbName (heap s' b) = map_option dbName (heap s b)"
proof -
  define s1 where "s1 = (if \<not> isNull (commitTimestamp s) then clearCommitTimestamp s else s)"
  define res where "res = dropLoopNoTimestamp X a colls OK (snd (wuow_begin s1))"
  define s2 where "s2 = wuow_commit (fst (wuow_begin s1)) (snd res)"
  have unf: "dropCollectionsNoTimestamp X a colls s =
      (case fst res of
         Returns firstError \<Rightarrow>
           (Returns firstError,
            if \<not> isNull (commitTimestamp s) then setCommitTimestamp (commitTimestamp s) s2 else s2)
       | Throws x \<Rightarrow> (Throws x,
            if \<not> isNull (commitTimestamp s)
            then setCommitTimestamp (commitTimestamp s) (wuow_abort (fst (wuow_begin s1)) (snd res))
            else wuow_abort (fst (wuow_begin s1)) (snd res))
       | Fatal m \<Rightarrow> (Fatal m, snd res))"
    unfolding dropCollectionsNoTimestamp_def Let_def s1_def res_def s2_def
    by (rule refl)
  from assms(2) unf obtain fe0 where r: "fst res = Returns fe0"
    by (cases "fst res") simp_all
  with assms(2) unf have
    s': "s' = (if \<not> isNull (commitTimestamp s) then setCommitTimestamp (commitTimestamp s) s2 else s2)"
    by simp
  have i1: "inUnitOfWork s1" "dbs s1 = dbs s" "changes s1 = changes s" "nextAddr s1 = nextAddr s"
    "heap s1 = heap s"
    using assms(1) by (simp_all add: s1_def clearCommitTimestamp_def)
  have nt: "fst (wuow_begin s1) = False" using i1(1) by (simp add: wuow_begin_def)
  have b: "snd (wuow_begin s1) = s1" using i1(1) by (simp add: wuow_begin_def)
  have l: "dbs (snd res) = dbs s" "changes (snd res) = changes s" "inUnitOfWork (snd res)"
    "nextAddr (snd res) = nextAddr s"
    "map_option dbName (heap (snd res) b) = map_option dbName (heap s b)"
    by (simp_all add: res_def b dropLoopNoTimestamp_frame dropLoopNoTimestamp_dbName i1)
  have "s2 = (snd res)\<lparr>trace := trace (snd res) @ [EvWuowCommit]\<rparr>"
    by (simp add: s2_def nt wuow_commit_def)
  with l show ?thesis by (simp add: s' setCommitTimestamp_def)
qed

lemma dropCollectionsWithTimestamp_nested:
  assumes "inUnitOfWork s" and "dropCollectionsWithTimestamp X a colls s = (Returns fe, s')"
  shows "\<exists>d. heap s' a = Some d \<and> map_option dbName (heap s a) = Some (dbName d)
           \<and> dbs s' = AList.delete (dbName d) (dbs s)
           \<and> changes s' = changes s @ [RemoveDBChange (dbName d) a]
           \<and> nextAddr s' = nextAddr s"
proof -
  define setCommitTs where "setCommitTs = (isNull (commitTimestamp s) \<and> \<not> isNull (getClusterTime X))"
  define s1 where "s1 = (if setCommitTs then setCommitTimestamp (getClusterTime X) s else s)"
  define res where "res = dropLoopWithTimestamp X a colls OK (snd (wuow_begin s1))"
  have unf: "dropCollectionsWithTimestamp X a colls s =
      (case fst res of
         Returns firstError \<Rightarrow>
           (case heap (snd res) a of
              None \<Rightarrow> (Fatal ''dangling entry'', snd res)
            | Some d \<Rightarrow>
                if collNamespaces d \<noteq> [] then (Fatal ''invariant: toDrop.empty()'', snd res)
                else (Returns firstError,
                      if setCommitTs
                      then clearCommitTimestamp (wuow_commit (fst (wuow_begin s1))
                             ((registerChange (RemoveDBChange (dbName d) a) (snd res))
                                \<lparr>dbs := AList.delete (dbName d)
                                          (dbs (registerChange (RemoveDBChange (dbName d) a) (snd res)))\<rparr>))
                      else wuow_commit (fst (wuow_begin s1))
                             ((registerChange (RemoveDBChange (dbName d) a) (snd res))
                                \<lparr>dbs := AList.delete (dbName d)
                                          (dbs (registerChange (RemoveDBChange (dbName d) a) (snd res)))\<rparr>)))
       | Throws x \<Rightarrow> (Throws x,
            if setCommitTs then clearCommitTimestamp (wuow_abort (fst (wuow_begin s1)) (snd res))
            else wuow_abort (fst (wuow_begin s1)) (snd res))
       | Fatal m \<Rightarrow> (Fatal m, snd res))"
    unfolding dropCollectionsWithTimestamp_def Let_def s1_def res_def setCommitTs_def
    by (rule refl)
  from assms(2) unf obtain fe0 where r: "fst res = Returns fe0"
    by (cases "fst res") simp_all
  from assms(2) unf r obtain d where d: "heap (snd res) a = Some d"
    by (cases "heap (snd res) a") simp_all
  from assms(2) unf r d have e: "collNamespaces d = []"
    by (cases "collNamespaces d = []") simp_all
  define s4 where "s4 = (registerChange (RemoveDBChange (dbName d) a) (snd res))
                                \<lparr>dbs := AList.delete (dbName d)
                                          (dbs (registerChange (RemoveDBChange (dbName d) a) (snd res)))\<rparr>"
  from assms(2) unf r d e have
    s': "s' = (if setCommitTs then clearCommitTimestamp (wuow_commit (fst (wuow_begin s1)) s4)
               else wuow_commit (fst (wuow_begin s1)) s4)"
    by (auto simp: s4_def split: if_splits)
  have i1: "inUnitOfWork s1" "dbs s1 = dbs s" "changes s1 = changes s" "nextAddr s1 = nextAddr s"
    "heap s1 = heap s"
    using assms(1) by (simp_all add: s1_def setCommitTimestamp_def)
  have nt: "fst (wuow_begin s1) = False" using i1(1) by (simp add: wuow_begin_def)
  have b: "snd (wuow_begin s1) = s1" using i1(1) by (simp add: wuow_begin_def)
  have l: "dbs (snd res) = dbs s" "changes (snd res) = changes s"
    "nextAddr (snd res) = nextAddr s"
    "map_option dbName (heap (snd res) a) = map_option dbName (heap s a)"
    by (simp_all add: res_def b dropLoopWithTimestamp_frame dropLoopWithTimestamp_dbName i1)
  have c: "wuow_commit (fst (wuow_begin s1)) s4 = s4\<lparr>trace := trace s4 @ [EvWuowCommit]\<rparr>"
    by (simp add: nt wuow_commit_def)
  have s'': "s' = (if setCommitTs then clearCommitTimestamp (s4\<lparr>trace := trace s4 @ [EvWuowCommit]\<rparr>)
               else s4\<lparr>trace := trace s4 @ [EvWuowCommit]\<rparr>)"
    using s' by (simp only: c)
  have "heap s' a = Some d" "dbs s' = AList.delete (dbName d) (dbs s)"
    "changes s' = changes s @ [RemoveDBChange (dbName d) a]" "nextAddr s' = nextAddr s"
    using l d by (simp_all add: s'' s4_def registerChange_def clearCommitTimestamp_def)
  moreover have "map_option dbName (heap s a) = Some (dbName d)"
    using l(4) d by simp
  ultimately show ?thesis by blast
qed

lemma fold_rollback_other:
  "\<forall>c \<in> set cs. change_db c \<noteq> db \<Longrightarrow> map_of (dbs (fold change_rollback cs s)) db = map_of (dbs s) db"
proof (induction cs arbitrary: s)
  case Nil
  show ?case by simp
next
  case (Cons c cs)
  obtain n e where c: "c = RemoveDBChange n e" by (cases c)
  with Cons.prems have "n \<noteq> db" by simp
  with Cons c show ?case by (simp add: update_conv')
qed

lemma abortUnitOfWork_restores:
  assumes "changes s = cs @ [RemoveDBChange db a]" and "\<forall>c \<in> set cs. change_db c \<noteq> db"
  shows "map_of (dbs (abortUnitOfWork s)) db = Some (Addr a)"
proof -
  have "\<forall>c \<in> set (rev cs). change_db c \<noteq> db" using assms(2) by simp
  from fold_rollback_other[OF this] show ?thesis
    by (simp add: abortUnitOfWork_def assms(1) update_conv')
qed

lemma heap_abortUnitOfWork: "heap (abortUnitOfWork s) = heap s"
  by (simp add: abortUnitOfWork_def fold_change_rollback_frame)

lemma getDatabaseCatalogEntry_found:
  "map_of (dbs s) name = Some (Addr a) \<Longrightarrow> getDatabaseCatalogEntry name s = (Addr a, s)"
  by (simp add: getDatabaseCatalogEntry_def)

lemma changes_run_op: "changes (run_op op s) = changes s"
  by (cases op)
     (simp_all add: getDatabaseCatalogEntry_def databaseCatalogEntryFactory_def closeDatabase_def
        setInitialDataTimestamp_def Let_def split: option.split ptr.split)

lemma changes_run_ops: "changes (run_ops ops s) = changes s"
  unfolding run_ops_def
  by (induction ops arbitrary: s) (simp_all add: changes_run_op)






text \<open>The definitions to unfold when a drop is run on an example.\<close>

lemmas drop_eval =
  dropDatabase_def dropState_def nestedDropState_def stateWith_def exampleCollaborators_def
  flakyCollaborators_def throwingCollaborators_def secondaryDropState_def std_partition_def
  dropCollectionsNoTimestamp_def dropCollectionsWithTimestamp_def Let_def
  wuow_begin_def wuow_commit_def wuow_abort_def commitUnitOfWork_def abortUnitOfWork_def
  dbce_call_dropCollection_def isNull_def nullTimestamp_def kAllowUnstableCheckpointsSentinel_def
  mayDropUntimestamped_def nss_coll_def nsToDatabase_def startsWith_def isSystemDotIndexes_def
  setCommitTimestamp_def clearCommitTimestamp_def registerChange_def setInitialDataTimestamp_def


section \<open>Properties\<close>

subsection \<open>reconcileCatalogAndIdents\<close>

text \<open>
  C3. Every ident that \<open>reconcileCatalogAndIdents\<close> passes to the engine's \<open>dropIdent\<close> is
  in the ident set the engine reported, is not the reserved ident \<open>_mdb_catalog\<close>, is not
  among the idents of the catalog, and is a user-data ident by the catalog's predicate;
  the calls it makes are all of this kind, whatever the outcome. Unless a drop fails
  (which terminates the process, \<open>fassert 40591\<close>), every such ident is dropped.
\<close>

theorem reconcile_drops_only_orphans:
  assumes "engine s = Some e" and "catalog s = Some c"
    and "reconcileCatalogAndIdents X s = (r, s')"
  shows "\<exists>evs. trace s' = trace s @ evs \<and>
           (\<forall>i. EvDropIdent i \<in> set evs \<longrightarrow>
              i \<in> set (engine_idents e) - {catalogInfo} \<and>
              i \<notin> set (getAllIdents_catalog c) \<and>
              catalog_isUserDataIdent X i) \<and>
           (r \<noteq> Fatal ''fassert 40591'' \<longrightarrow>
              (\<forall>i \<in> set (engine_idents e) - {catalogInfo}.
                 i \<notin> set (getAllIdents_catalog c) \<and> catalog_isUserDataIdent X i \<longrightarrow>
                 EvDropIdent i \<in> set evs))"
proof -
  let ?E = "std_set_erase catalogInfo (std_set_of (engine_idents e))"
  let ?C = "std_set_of (getAllIdents_catalog c)"
  from reconcile_cases[OF assms] obtain r1 where
    d: "dropUnknownIdents X ?C ?E s = (r1, s')" and
    r1: "r1 = Fatal ''fassert 40591'' \<and> r = Fatal ''fassert 40591'' \<or> r1 = Returns ()"
    by blast
  from dropUnknownIdents_trace[OF d] obtain evs where
    e1: "trace s' = trace s @ evs" and
    e2: "\<forall>i. EvDropIdent i \<in> set evs \<longrightarrow>
           i \<in> set ?E \<and> i \<notin> set ?C \<and> catalog_isUserDataIdent X i" and
    e3: "r1 = Returns () \<longrightarrow>
          (\<forall>i \<in> set ?E. i \<notin> set ?C \<and> catalog_isUserDataIdent X i \<longrightarrow> EvDropIdent i \<in> set evs)"
    by blast
  have c2: "\<forall>i. EvDropIdent i \<in> set evs \<longrightarrow>
              i \<in> set (engine_idents e) - {catalogInfo} \<and>
              i \<notin> set (getAllIdents_catalog c) \<and>
              catalog_isUserDataIdent X i"
    using e2 by (simp only: set_engineIdents set_std_set_of)
  have c3: "r \<noteq> Fatal ''fassert 40591'' \<longrightarrow>
              (\<forall>i \<in> set (engine_idents e) - {catalogInfo}.
                 i \<notin> set (getAllIdents_catalog c) \<and> catalog_isUserDataIdent X i \<longrightarrow>
                 EvDropIdent i \<in> set evs)"
    using e3 r1 by (simp only: set_engineIdents set_std_set_of) blast
  from e1 c2 c3 show ?thesis by blast
qed

text \<open>
  The engine has \<open>_mdb_catalog\<close>, \<open>user.A\<close> and \<open>user.B\<close>, the catalog knows \<open>user.A\<close>:
  \<open>user.B\<close> is dropped, in a unit of work of its own, and nothing is to rebuild.
\<close>

theorem reconcile_drops_only_orphans_witness:
  "engine orphanState = Some \<lparr>engine_idents = [''_mdb_catalog'', ''user.A'', ''user.B''], engine_shut = False\<rparr>
   \<and> catalog orphanState = Some orphanCatalog
   \<and> fst (reconcileCatalogAndIdents exampleCollaborators orphanState) = Returns (Inr [])
   \<and> trace (snd (reconcileCatalogAndIdents exampleCollaborators orphanState))
       = [EvDropIdent ''user.B'', EvWuowCommit]
   \<and> (\<exists>evs. trace (snd (reconcileCatalogAndIdents exampleCollaborators orphanState))
               = trace orphanState @ evs \<and>
           (\<forall>i. EvDropIdent i \<in> set evs \<longrightarrow>
              i \<in> set (engine_idents \<lparr>engine_idents = [''_mdb_catalog'', ''user.A'', ''user.B''],
                                       engine_shut = False\<rparr>) - {catalogInfo} \<and>
              i \<notin> set (getAllIdents_catalog orphanCatalog) \<and>
              catalog_isUserDataIdent exampleCollaborators i) \<and>
           (fst (reconcileCatalogAndIdents exampleCollaborators orphanState) \<noteq> Fatal ''fassert 40591'' \<longrightarrow>
              (\<forall>i \<in> set (engine_idents \<lparr>engine_idents = [''_mdb_catalog'', ''user.A'', ''user.B''],
                                       engine_shut = False\<rparr>) - {catalogInfo}.
                 i \<notin> set (getAllIdents_catalog orphanCatalog)
                 \<and> catalog_isUserDataIdent exampleCollaborators i \<longrightarrow>
                 EvDropIdent i \<in> set evs)))"
proof -
  let ?res = "reconcileCatalogAndIdents exampleCollaborators orphanState"
  have h1: "engine orphanState
              = Some \<lparr>engine_idents = [''_mdb_catalog'', ''user.A'', ''user.B''], engine_shut = False\<rparr>"
    by (simp add: orphanState_def stateWith_def)
  have h2: "catalog orphanState = Some orphanCatalog"
    by (simp add: orphanState_def stateWith_def)
  have h3: "?res = (fst ?res, snd ?res)" by simp
  have r: "fst ?res = Returns (Inr [])"
    by (simp add: reconcileCatalogAndIdents_def exampleCollaborators_def orphanState_def
        orphanCatalog_def stateWith_def
        std_set_of_def std_set_erase_def catalogInfo_def getAllIdents_catalog_def
        getAllCollections_def getCollectionIdent_def getMetaData_indexes_def
        wuow_begin_def wuow_commit_def commitUnitOfWork_def)
  have t: "trace (snd ?res) = [EvDropIdent ''user.B'', EvWuowCommit]"
    by (simp add: reconcileCatalogAndIdents_def exampleCollaborators_def orphanState_def
        orphanCatalog_def stateWith_def
        std_set_of_def std_set_erase_def catalogInfo_def getAllIdents_catalog_def
        getAllCollections_def getCollectionIdent_def getMetaData_indexes_def
        wuow_begin_def wuow_commit_def commitUnitOfWork_def)
  from h1 h2 r t reconcile_drops_only_orphans[OF h1 h2 h3] show ?thesis by (intro conjI)
qed

text \<open>
  C4. If some namespace of the catalog has a collection ident that is not in the
  engine's ident set without \<open>_mdb_catalog\<close>, then \<open>reconcileCatalogAndIdents\<close>, unless a
  drop of its first loop failed (which terminates the process, \<open>fassert 40591\<close>),
  returns the status \<open>UnrecoverableRollbackError\<close> and no rebuild list; the message names
  the first such namespace of the catalog and its ident.
\<close>

theorem reconcile_missing_collection:
  assumes "engine s = Some e" and "catalog s = Some c"
    and "n \<in> set (getAllCollections c)" and "getCollectionIdent c n = Some i"
    and "i \<notin> set (engine_idents e) - {catalogInfo}"
    and "reconcileCatalogAndIdents X s = (r, s')"
    and "r \<noteq> Fatal ''fassert 40591''"
  shows "\<exists>pre n' i' post.
           getAllCollections c = pre @ n' # post \<and>
           (\<forall>m \<in> set pre. \<exists>j. getCollectionIdent c m = Some j \<and> j \<in> set (engine_idents e) - {catalogInfo}) \<and>
           getCollectionIdent c n' = Some i' \<and> i' \<notin> set (engine_idents e) - {catalogInfo} \<and>
           r = Returns (Inl (Error UnrecoverableRollbackError
                 (''Expected collection does not exist. NS: '' @ n' @ '' Ident: '' @ i')))"
proof -
  let ?E = "std_set_erase catalogInfo (std_set_of (engine_idents e))"
  have E: "set ?E = set (engine_idents e) - {catalogInfo}" by (rule set_engineIdents)
  have "i \<notin> set ?E" unfolding E by (rule assms(5))
  from checkCollections_err[OF subset_refl assms(3,4) this] obtain pre n' i' post where
    a1: "getAllCollections c = pre @ n' # post" and
    a2: "\<forall>m \<in> set pre. \<exists>j. getCollectionIdent c m = Some j \<and> j \<in> set ?E" and
    a3: "getCollectionIdent c n' = Some i'" "i' \<notin> set ?E" and
    a4: "checkCollections c ?E (getAllCollections c)
           = Returns (Error UnrecoverableRollbackError (missingMsg n' i'))"
    by blast
  from reconcile_cases[OF assms(1,2,6)] assms(7) a4
  have "r = Returns (Inl (Error UnrecoverableRollbackError (missingMsg n' i')))"
    by auto
  then have r: "r = Returns (Inl (Error UnrecoverableRollbackError
                 (''Expected collection does not exist. NS: '' @ n' @ '' Ident: '' @ i')))"
    unfolding missingMsg_def .
  have a2': "\<forall>m \<in> set pre. \<exists>j. getCollectionIdent c m = Some j \<and> j \<in> set (engine_idents e) - {catalogInfo}"
    using a2 unfolding E .
  have a3': "i' \<notin> set (engine_idents e) - {catalogInfo}" using a3(2) unfolding E .
  from a1 a2' a3(1) a3' r show ?thesis by blast
qed

text \<open>
  The catalog knows \<open>db.c\<close> with ident \<open>user.C\<close>, the engine has only \<open>_mdb_catalog\<close>.
\<close>

theorem reconcile_missing_collection_witness:
  "''db.c'' \<in> set (getAllCollections missingCollectionCatalog)
   \<and> getCollectionIdent missingCollectionCatalog ''db.c'' = Some ''user.C''
   \<and> ''user.C'' \<notin> set (engine_idents \<lparr>engine_idents = [''_mdb_catalog''], engine_shut = False\<rparr>) - {catalogInfo}
   \<and> fst (reconcileCatalogAndIdents exampleCollaborators missingCollectionState)
       = Returns (Inl (Error UnrecoverableRollbackError
                  ''Expected collection does not exist. NS: db.c Ident: user.C''))
   \<and> (\<exists>pre n' i' post.
           getAllCollections missingCollectionCatalog = pre @ n' # post \<and>
           (\<forall>m \<in> set pre. \<exists>j. getCollectionIdent missingCollectionCatalog m = Some j
               \<and> j \<in> set (engine_idents \<lparr>engine_idents = [''_mdb_catalog''], engine_shut = False\<rparr>) - {catalogInfo}) \<and>
           getCollectionIdent missingCollectionCatalog n' = Some i' \<and>
           i' \<notin> set (engine_idents \<lparr>engine_idents = [''_mdb_catalog''], engine_shut = False\<rparr>) - {catalogInfo} \<and>
           fst (reconcileCatalogAndIdents exampleCollaborators missingCollectionState)
             = Returns (Inl (Error UnrecoverableRollbackError
                 (''Expected collection does not exist. NS: '' @ n' @ '' Ident: '' @ i'))))"
proof -
  let ?res = "reconcileCatalogAndIdents exampleCollaborators missingCollectionState"
  let ?e = "\<lparr>engine_idents = [''_mdb_catalog''], engine_shut = False\<rparr>"
  have h1: "engine missingCollectionState = Some ?e"
    by (simp add: missingCollectionState_def stateWith_def)
  have h2: "catalog missingCollectionState = Some missingCollectionCatalog"
    by (simp add: missingCollectionState_def stateWith_def)
  have h3: "''db.c'' \<in> set (getAllCollections missingCollectionCatalog)"
    by (simp add: getAllCollections_def missingCollectionCatalog_def)
  have h4: "getCollectionIdent missingCollectionCatalog ''db.c'' = Some ''user.C''"
    by (simp add: getCollectionIdent_def missingCollectionCatalog_def)
  have h5: "''user.C'' \<notin> set (engine_idents ?e) - {catalogInfo}"
    by simp
  have h6: "?res = (fst ?res, snd ?res)" by simp
  have r: "fst ?res = Returns (Inl (Error UnrecoverableRollbackError
                  ''Expected collection does not exist. NS: db.c Ident: user.C''))"
    by (simp add: reconcileCatalogAndIdents_def exampleCollaborators_def missingCollectionState_def
        missingCollectionCatalog_def stateWith_def
        std_set_of_def std_set_erase_def catalogInfo_def getAllIdents_catalog_def
        getAllCollections_def getCollectionIdent_def getMetaData_indexes_def
        wuow_begin_def wuow_commit_def commitUnitOfWork_def)
  have h7: "fst ?res \<noteq> Fatal ''fassert 40591''" by (simp add: r)
  from h3 h4 h5 r reconcile_missing_collection[OF h1 h2 h3 h4 h5 h6 h7] show ?thesis
    by (intro conjI)
qed

text \<open>
  C5. When \<open>reconcileCatalogAndIdents\<close> returns a rebuild list, a pair of namespace and
  index name is in the list if and only if the namespace is in the catalog, its metadata
  has an index of that name, and the ident the catalog records for the index is not in
  the ident set the engine reported on entry, less \<open>_mdb_catalog\<close>. When no ident of the
  catalog is \<open>_mdb_catalog\<close>, that is the engine's ident set as it is.
\<close>

theorem reconcile_rebuild_list:
  assumes "engine s = Some e" and "catalog s = Some c"
    and "reconcileCatalogAndIdents X s = (Returns (Inr ret), s')"
  shows "((n, idx) \<in> set ret) =
           (\<exists>names i. n \<in> set (getAllCollections c) \<and> getMetaData_indexes c n = Some names \<and>
              idx \<in> set names \<and> getIndexIdent c n idx = Some i \<and>
              i \<notin> set (engine_idents e) - {catalogInfo})
         \<and> (catalogInfo \<notin> set (getAllIdents_catalog c) \<longrightarrow>
             ((n, idx) \<in> set ret) =
               (\<exists>names i. n \<in> set (getAllCollections c) \<and> getMetaData_indexes c n = Some names \<and>
                  idx \<in> set names \<and> getIndexIdent c n idx = Some i \<and>
                  i \<notin> set (engine_idents e)))"
proof -
  let ?E = "std_set_erase catalogInfo (std_set_of (engine_idents e))"
  have E: "set ?E = set (engine_idents e) - {catalogInfo}" by (rule set_engineIdents)
  from reconcile_cases[OF assms] have ret: "indexesToRebuild c ?E (getAllCollections c) = Returns ret"
    by auto
  from indexesToRebuild_set[OF subset_refl, of c ?E] ret have
    "set ret = {(n, nm). n \<in> set (getAllCollections c) \<and>
                    (\<exists>names i. getMetaData_indexes c n = Some names \<and> nm \<in> set names \<and>
                       getIndexIdent c n nm = Some i \<and> i \<notin> set ?E)}"
    by simp
  then have c1: "((n, idx) \<in> set ret) =
           (\<exists>names i. n \<in> set (getAllCollections c) \<and> getMetaData_indexes c n = Some names \<and>
              idx \<in> set names \<and> getIndexIdent c n idx = Some i \<and>
              i \<notin> set (engine_idents e) - {catalogInfo})"
    unfolding E by blast
  have c2: "catalogInfo \<notin> set (getAllIdents_catalog c) \<longrightarrow>
             ((n, idx) \<in> set ret) =
               (\<exists>names i. n \<in> set (getAllCollections c) \<and> getMetaData_indexes c n = Some names \<and>
                  idx \<in> set names \<and> getIndexIdent c n idx = Some i \<and>
                  i \<notin> set (engine_idents e))"
  proof
    assume nc: "catalogInfo \<notin> set (getAllIdents_catalog c)"
    have "\<And>i. getIndexIdent c n idx = Some i \<Longrightarrow> i \<noteq> catalogInfo"
      using getIndexIdent_in_catalog[of c n idx] nc by blast
    then show "((n, idx) \<in> set ret) =
               (\<exists>names i. n \<in> set (getAllCollections c) \<and> getMetaData_indexes c n = Some names \<and>
                  idx \<in> set names \<and> getIndexIdent c n idx = Some i \<and>
                  i \<notin> set (engine_idents e))"
      unfolding c1 by blast
  qed
  from c1 c2 show ?thesis by blast
qed

text \<open>
  The engine has the table \<open>user.C\<close> of \<open>db.c\<close> and not the table \<open>idx.I\<close> of its index
  \<open>i\<close>: the index is to rebuild.
\<close>

theorem reconcile_rebuild_list_witness:
  "fst (reconcileCatalogAndIdents exampleCollaborators missingIndexState) = Returns (Inr [(''db.c'', ''i'')])
   \<and> catalogInfo \<notin> set (getAllIdents_catalog missingCollectionCatalog)
   \<and> ((''db.c'', ''i'') \<in> set [(''db.c'', ''i'')]) =
           (\<exists>names i. ''db.c'' \<in> set (getAllCollections missingCollectionCatalog) \<and>
              getMetaData_indexes missingCollectionCatalog ''db.c'' = Some names \<and>
              ''i'' \<in> set names \<and> getIndexIdent missingCollectionCatalog ''db.c'' ''i'' = Some i \<and>
              i \<notin> set (engine_idents \<lparr>engine_idents = [''_mdb_catalog'', ''user.C''], engine_shut = False\<rparr>))"
proof -
  let ?res = "reconcileCatalogAndIdents exampleCollaborators missingIndexState"
  let ?e = "\<lparr>engine_idents = [''_mdb_catalog'', ''user.C''], engine_shut = False\<rparr>"
  have h1: "engine missingIndexState = Some ?e"
    by (simp add: missingIndexState_def stateWith_def)
  have h2: "catalog missingIndexState = Some missingCollectionCatalog"
    by (simp add: missingIndexState_def stateWith_def)
  have r: "fst ?res = Returns (Inr [(''db.c'', ''i'')])"
    by (simp add: reconcileCatalogAndIdents_def exampleCollaborators_def missingIndexState_def
        missingCollectionCatalog_def stateWith_def
        std_set_of_def std_set_erase_def catalogInfo_def getAllIdents_catalog_def
        getAllCollections_def getCollectionIdent_def getMetaData_indexes_def getIndexIdent_def
        wuow_begin_def wuow_commit_def commitUnitOfWork_def)
  have h3: "?res = (Returns (Inr [(''db.c'', ''i'')]), snd ?res)"
    using r by (simp add: prod_eq_iff)
  have h4: "catalogInfo \<notin> set (getAllIdents_catalog missingCollectionCatalog)"
    by (simp add: getAllIdents_catalog_def missingCollectionCatalog_def catalogInfo_def)
  from reconcile_rebuild_list[OF h1 h2 h3, of "''db.c''" "''i''"] h4
  have "((''db.c'', ''i'') \<in> set [(''db.c'', ''i'')]) =
           (\<exists>names i. ''db.c'' \<in> set (getAllCollections missingCollectionCatalog) \<and>
              getMetaData_indexes missingCollectionCatalog ''db.c'' = Some names \<and>
              ''i'' \<in> set names \<and> getIndexIdent missingCollectionCatalog ''db.c'' ''i'' = Some i \<and>
              i \<notin> set (engine_idents ?e))"
    by blast
  with r h4 show ?thesis by (intro conjI)
qed

subsection \<open>cleanShutdown and newRecoveryUnit\<close>

text \<open>
  \<open>newRecoveryUnit\<close> returns null only when \<open>_engine\<close> is null, and \<open>cleanShutdown\<close>
  leaves \<open>_engine\<close> as it is: after \<open>cleanShutdown\<close>, \<open>newRecoveryUnit\<close> gives what the
  engine, shut down, gives.
\<close>

lemma newRecoveryUnit_after_cleanShutdown_forwards:
  "engine s = Some e \<Longrightarrow>
     fst (cleanShutdown s) = Returns ()
     \<and> engine (snd (cleanShutdown s)) = Some (e\<lparr>engine_shut := True\<rparr>)
     \<and> newRecoveryUnit X (snd (cleanShutdown s)) = engine_newRecoveryUnit X (e\<lparr>engine_shut := True\<rparr>)"
  by (simp add: cleanShutdown_def newRecoveryUnit_def Let_def)

text \<open>
  C1. After \<open>cleanShutdown\<close>, \<open>newRecoveryUnit\<close> is to return null. Here it does not: with
  an engine that still hands out recovery units once shut down, the call after
  \<open>cleanShutdown\<close> is forwarded and returns a unit.
\<close>

theorem newRecoveryUnit_after_cleanShutdown:
  "fst (cleanShutdown orphanState) = Returns ()
   \<and> engine (snd (cleanShutdown orphanState))
       = Some \<lparr>engine_idents = [''_mdb_catalog'', ''user.A'', ''user.B''], engine_shut = True\<rparr>
   \<and> newRecoveryUnit exampleCollaborators (snd (cleanShutdown orphanState)) = Some 3
   \<and> newRecoveryUnit exampleCollaborators (snd (cleanShutdown orphanState)) \<noteq> None"
  by (simp add: cleanShutdown_def newRecoveryUnit_def Let_def orphanState_def stateWith_def
      exampleCollaborators_def)


subsection \<open>dropDatabase\<close>

text \<open>
  C2. Whenever \<open>dropDatabase\<close> is left, by returning a status (success or error, the
  early \<open>NamespaceNotFound\<close> included) or by an exception of a \<open>dropCollection\<close>, the
  commit timestamp of the recovery unit is what it was on entry. (A failed invariant
  terminates the process; nothing is left to observe.)
\<close>

theorem dropDatabase_commitTimestamp:
  assumes "dropDatabase X db s = (r, s')" and "\<forall>m. r \<noteq> Fatal m"
  shows "commitTimestamp s' = commitTimestamp s"
proof (cases "map_of (dbs s) db")
  case None
  with assms(1) show ?thesis by (simp add: dropDatabase_def)
next
  case (Some p)
  show ?thesis
  proof (cases p)
    case Null
    with Some assms show ?thesis by (simp add: dropDatabase_def)
  next
    case (Addr a)
    show ?thesis
    proof (cases "heap s a")
      case None
      with Some Addr assms show ?thesis by (simp add: dropDatabase_def)
    next
      case (Some d)
      let ?parts = "std_partition (\<lambda>dropNs. \<not> nss_isDropPendingNamespace X dropNs) (collNamespaces d)"
      let ?resA = "dropCollectionsNoTimestamp X a (fst ?parts) s"
      let ?resB = "dropCollectionsWithTimestamp X a (snd ?parts) (snd ?resA)"
      have dbs: "map_of (dbs s) db = Some (Addr a)"
        using \<open>map_of (dbs s) db = Some p\<close> Addr by simp
      note unf = dropDatabase_phases[OF dbs Some, of X]
      have A: "?resA = (fst ?resA, snd ?resA)" by simp
      have B: "?resB = (fst ?resB, snd ?resB)" by simp
      show ?thesis
      proof (cases "fst ?resA")
        case (Fatal m)
        with unf assms show ?thesis by simp
      next
        case (Throws x)
        with unf assms(1) have "s' = snd ?resA" by simp
        moreover have "commitTimestamp (snd ?resA) = commitTimestamp s"
          using dropCollectionsNoTimestamp_commitTimestamp[OF A] Throws by simp
        ultimately show ?thesis by simp
      next
        case (Returns fe)
        have cA: "commitTimestamp (snd ?resA) = commitTimestamp s"
          using dropCollectionsNoTimestamp_commitTimestamp[OF A] Returns by simp
        show ?thesis
        proof (cases "fst ?resB")
          case (Fatal m)
          with unf Returns assms show ?thesis by simp
        next
          case (Throws x)
          with unf Returns assms(1) have "s' = snd ?resB" by simp
          moreover have "commitTimestamp (snd ?resB) = commitTimestamp (snd ?resA)"
            using dropCollectionsWithTimestamp_commitTimestamp[OF B] Throws by simp
          ultimately show ?thesis using cA by simp
        next
          case Returns2: (Returns st)
          with unf Returns assms(1) have "s' = snd ?resB" by simp
          moreover have "commitTimestamp (snd ?resB) = commitTimestamp (snd ?resA)"
            using dropCollectionsWithTimestamp_commitTimestamp[OF B] Returns2 by simp
          ultimately show ?thesis using cA by simp
        qed
      qed
    qed
  qed
qed

text \<open>
  The database \<open>d\<close> is dropped with no commit timestamp set: the second phase sets the
  logical clock's time and clears it again. On a secondary, with the commit timestamp 9
  set, the first \<open>dropCollection\<close> throws: the timestamp, cleared for the first phase, is
  9 again when the exception leaves \<open>dropDatabase\<close>.
\<close>

theorem dropDatabase_commitTimestamp_witness:
  "fst (dropDatabase exampleCollaborators ''d'' dropState) = Returns OK
   \<and> (\<forall>m. fst (dropDatabase exampleCollaborators ''d'' dropState) \<noteq> Fatal m)
   \<and> commitTimestamp (snd (dropDatabase exampleCollaborators ''d'' dropState))
       = commitTimestamp dropState
   \<and> fst (dropDatabase throwingCollaborators ''d'' secondaryDropState) = Throws ''WriteConflict''
   \<and> commitTimestamp secondaryDropState = 9
   \<and> commitTimestamp (snd (dropDatabase throwingCollaborators ''d'' secondaryDropState))
       = commitTimestamp secondaryDropState"
proof -
  let ?res = "dropDatabase exampleCollaborators ''d'' dropState"
  have r: "fst ?res = Returns OK" by (simp add: drop_eval)
  have h1: "?res = (fst ?res, snd ?res)" by simp
  have h2: "\<forall>m. fst ?res \<noteq> Fatal m" by (simp add: r)
  let ?thr = "dropDatabase throwingCollaborators ''d'' secondaryDropState"
  have r': "fst ?thr = Throws ''WriteConflict''" by (simp add: drop_eval)
  have h1': "?thr = (fst ?thr, snd ?thr)" by simp
  have h2': "\<forall>m. fst ?thr \<noteq> Fatal m" by (simp add: r')
  have c: "commitTimestamp secondaryDropState = 9" by (simp add: secondaryDropState_def)
  from r h2 dropDatabase_commitTimestamp[OF h1 h2] r' c dropDatabase_commitTimestamp[OF h1' h2']
  show ?thesis by (intro conjI)
qed





text \<open>
  C7. Let \<open>dropDatabase\<close> run inside a unit of work of the caller, on a database whose
  entry is registered under its own name, and return. It has erased the entry from
  \<open>_dbs\<close> and registered a \<open>RemoveDBChange\<close> whose rollback puts the same pointer back
  under the same name; the entry is not deleted. When the caller's unit of work aborts
  (and holds no earlier removal of that name), \<open>getDatabaseCatalogEntry\<close> for the name
  returns that pointer and creates nothing, also when entries were looked up or created
  between the drop and the abort.
\<close>

theorem dropDatabase_rollback_reinstates_entry:
  assumes "inUnitOfWork s"
    and "map_of (dbs s) db = Some (Addr a)" and "heap s a = Some d" and "dbName d = db"
    and "\<forall>c \<in> set (changes s). change_db c \<noteq> db"
    and "dropDatabase X db s = (Returns st, s1)"
  shows "map_of (dbs s1) db = None
       \<and> changes s1 = changes s @ [RemoveDBChange db a]
       \<and> map_of (dbs (change_rollback (RemoveDBChange db a) s1)) db = Some (Addr a)
       \<and> heap s1 a \<noteq> None
       \<and> heap (abortUnitOfWork s1) a = heap s1 a
       \<and> getDatabaseCatalogEntry db (abortUnitOfWork s1) = (Addr a, abortUnitOfWork s1)
       \<and> getDatabaseCatalogEntry db (abortUnitOfWork (run_ops ops s1))
            = (Addr a, abortUnitOfWork (run_ops ops s1))"
proof -
  let ?parts = "std_partition (\<lambda>dropNs. \<not> nss_isDropPendingNamespace X dropNs) (collNamespaces d)"
  from dropDatabase_Returns[OF assms(2,3,6)] obtain feA feB sA where
    A: "dropCollectionsNoTimestamp X a (fst ?parts) s = (Returns feA, sA)" and
    B: "dropCollectionsWithTimestamp X a (snd ?parts) sA = (Returns feB, s1)"
    by blast
  from dropCollectionsNoTimestamp_nested[OF assms(1) A, of a] have
    a1: "dbs sA = dbs s" "changes sA = changes s" "inUnitOfWork sA"
      "map_option dbName (heap sA a) = map_option dbName (heap s a)"
    by simp_all
  from dropCollectionsWithTimestamp_nested[OF a1(3) B] obtain d' where
    b1: "heap s1 a = Some d'" "map_option dbName (heap sA a) = Some (dbName d')"
      "dbs s1 = AList.delete (dbName d') (dbs sA)"
      "changes s1 = changes sA @ [RemoveDBChange (dbName d') a]"
    by blast
  have n: "dbName d' = db" using b1(2) a1(4) assms(3,4) by simp
  have c1: "map_of (dbs s1) db = None" using b1(3) n by (simp add: delete_conv')
  have c2: "changes s1 = changes s @ [RemoveDBChange db a]" using b1(4) a1(2) n by simp
  have c3: "map_of (dbs (change_rollback (RemoveDBChange db a) s1)) db = Some (Addr a)"
    by (simp add: update_conv')
  have c4: "heap s1 a \<noteq> None" using b1(1) by simp
  have c5: "heap (abortUnitOfWork s1) a = heap s1 a" by (simp add: heap_abortUnitOfWork)
  have "map_of (dbs (abortUnitOfWork s1)) db = Some (Addr a)"
    by (rule abortUnitOfWork_restores[OF c2 assms(5)])
  then have c6: "getDatabaseCatalogEntry db (abortUnitOfWork s1) = (Addr a, abortUnitOfWork s1)"
    by (rule getDatabaseCatalogEntry_found)
  have "changes (run_ops ops s1) = changes s @ [RemoveDBChange db a]"
    by (simp add: changes_run_ops c2)
  then have "map_of (dbs (abortUnitOfWork (run_ops ops s1))) db = Some (Addr a)"
    using assms(5) by (rule abortUnitOfWork_restores)
  then have c7: "getDatabaseCatalogEntry db (abortUnitOfWork (run_ops ops s1))
            = (Addr a, abortUnitOfWork (run_ops ops s1))"
    by (rule getDatabaseCatalogEntry_found)
  from c1 c2 c3 c4 c5 c6 c7 show ?thesis by blast
qed

text \<open>
  The database \<open>d\<close> is dropped inside the caller's unit of work; then \<open>d\<close> is looked up
  (which creates a new entry), and the unit of work aborts: \<open>d\<close> is the entry at address 0
  again.
\<close>

theorem dropDatabase_rollback_reinstates_entry_witness:
  "inUnitOfWork nestedDropState
   \<and> map_of (dbs nestedDropState) ''d'' = Some (Addr 0)
   \<and> fst (dropDatabase exampleCollaborators ''d'' nestedDropState) = Returns OK
   \<and> fst (getDatabaseCatalogEntry ''d'' (snd (dropDatabase exampleCollaborators ''d'' nestedDropState)))
       = Addr 1
   \<and> map_of (dbs (snd (dropDatabase exampleCollaborators ''d'' nestedDropState))) ''d'' = None
   \<and> changes (snd (dropDatabase exampleCollaborators ''d'' nestedDropState))
       = changes nestedDropState @ [RemoveDBChange ''d'' 0]
   \<and> map_of (dbs (change_rollback (RemoveDBChange ''d'' 0)
         (snd (dropDatabase exampleCollaborators ''d'' nestedDropState)))) ''d'' = Some (Addr 0)
   \<and> heap (snd (dropDatabase exampleCollaborators ''d'' nestedDropState)) 0 \<noteq> None
   \<and> heap (abortUnitOfWork (snd (dropDatabase exampleCollaborators ''d'' nestedDropState))) 0
       = heap (snd (dropDatabase exampleCollaborators ''d'' nestedDropState)) 0
   \<and> getDatabaseCatalogEntry ''d''
         (abortUnitOfWork (snd (dropDatabase exampleCollaborators ''d'' nestedDropState)))
       = (Addr 0, abortUnitOfWork (snd (dropDatabase exampleCollaborators ''d'' nestedDropState)))
   \<and> getDatabaseCatalogEntry ''d''
         (abortUnitOfWork (run_ops [OpGetDatabaseCatalogEntry ''d'']
            (snd (dropDatabase exampleCollaborators ''d'' nestedDropState))))
       = (Addr 0, abortUnitOfWork (run_ops [OpGetDatabaseCatalogEntry ''d'']
            (snd (dropDatabase exampleCollaborators ''d'' nestedDropState))))"
proof -
  let ?res = "dropDatabase exampleCollaborators ''d'' nestedDropState"
  let ?d = "\<lparr>dbName = ''d'',
        collNamespaces = [''d.system.drop.a'', ''d.system.profile'', ''d.system.drop.b'']\<rparr>"
  have h1: "inUnitOfWork nestedDropState" by (simp add: nestedDropState_def)
  have h2: "map_of (dbs nestedDropState) ''d'' = Some (Addr 0)"
    by (simp add: nestedDropState_def dropState_def)
  have h3: "heap nestedDropState 0 = Some ?d" by (simp add: nestedDropState_def dropState_def)
  have h4: "dbName ?d = ''d''" by simp
  have h5: "\<forall>c \<in> set (changes nestedDropState). change_db c \<noteq> ''d''"
    by (simp add: nestedDropState_def dropState_def stateWith_def)
  have r: "fst ?res = Returns OK" by (simp add: drop_eval)
  have h6: "?res = (Returns OK, snd ?res)" using r by (simp add: prod_eq_iff)
  have g: "fst (getDatabaseCatalogEntry ''d'' (snd ?res)) = Addr 1"
    by (simp add: drop_eval getDatabaseCatalogEntry_def databaseCatalogEntryFactory_def)
  from h1 h2 r g
    dropDatabase_rollback_reinstates_entry[OF h1 h2 h3 h4 h5 h6,
      of "[OpGetDatabaseCatalogEntry ''d'']"]
  show ?thesis by (intro conjI) blast+
qed


text \<open>
  C8. Let the cached \<open>initialDataTimestamp\<close> be set to a value other than the sentinel.
  Then every namespace for which the first phase (\<open>_dropCollectionsNoTimestamp\<close>) calls
  \<open>dropCollection\<close> is one of its namespaces and is not replicated, or has a collection
  name that starts with \<open>tmp.mr\<close>, or is \<open>system.indexes\<close>. If some namespace of the phase
  is none of these, the phase does not return: the invariant fails at the first such
  namespace (unless a \<open>dropCollection\<close> before it threw, or the entry is gone). If all
  namespaces of the phase are of these kinds, the invariant does not fail.
\<close>

theorem dropCollectionsNoTimestamp_invariant:
  assumes "ts \<noteq> kAllowUnstableCheckpointsSentinel"
    and "dropCollectionsNoTimestamp X a colls (setInitialDataTimestamp ts s) = (r, s')"
  shows "\<exists>evs. trace s' = trace s @ evs \<and>
           (\<forall>n res. EvDropCollection n res \<in> set evs \<longrightarrow>
              n \<in> set colls \<and>
              (\<not> nss_isReplicated X n \<or> startsWith (nss_coll n) ''tmp.mr'' \<or> isSystemDotIndexes n)) \<and>
           (\<forall>bad. find (\<lambda>n. \<not> mayDropUntimestamped X n) colls = Some bad \<longrightarrow>
              r = Fatal (''Collection drop is not being timestamped. Namespace: '' @ bad)
              \<or> (\<exists>x. r = Throws x) \<or> r = Fatal ''dangling entry'') \<and>
           ((\<forall>n \<in> set colls. mayDropUntimestamped X n) \<longrightarrow>
              (\<forall>n. r \<noteq> Fatal (''Collection drop is not being timestamped. Namespace: '' @ n)))"
proof -
  define s0 where "s0 = setInitialDataTimestamp ts s"
  define s1 where "s1 = (if \<not> isNull (commitTimestamp s0) then clearCommitTimestamp s0 else s0)"
  define res where "res = dropLoopNoTimestamp X a colls OK (snd (wuow_begin s1))"
  define s2 where "s2 = wuow_commit (fst (wuow_begin s1)) (snd res)"
  define s3 where "s3 = wuow_abort (fst (wuow_begin s1)) (snd res)"
  have unf: "dropCollectionsNoTimestamp X a colls s0 =
      (case fst res of
         Returns firstError \<Rightarrow>
           (Returns firstError,
            if \<not> isNull (commitTimestamp s0) then setCommitTimestamp (commitTimestamp s0) s2 else s2)
       | Throws x \<Rightarrow> (Throws x,
            if \<not> isNull (commitTimestamp s0)
            then setCommitTimestamp (commitTimestamp s0) s3
            else s3)
       | Fatal m \<Rightarrow> (Fatal m, snd res))"
    unfolding dropCollectionsNoTimestamp_def Let_def s1_def res_def s2_def s3_def
    by (rule refl)
  have r: "r = fst res"
    using assms(2) unf by (cases "fst res") (simp_all add: s0_def)
  have i: "initialDataTimestamp (snd (wuow_begin s1)) \<noteq> kAllowUnstableCheckpointsSentinel"
    using assms(1)
    by (simp add: wuow_begin_def s1_def s0_def setInitialDataTimestamp_def clearCommitTimestamp_def)
  have t1: "trace (snd (wuow_begin s1)) = trace s"
    by (simp add: wuow_begin_def s1_def s0_def setInitialDataTimestamp_def clearCommitTimestamp_def)
  have "\<exists>evs. trace (snd res) = trace (snd (wuow_begin s1)) @ evs \<and>
      (\<forall>ev \<in> set evs. \<exists>n res. ev = EvDropCollection n res \<and> n \<in> set colls \<and>
          (initialDataTimestamp (snd (wuow_begin s1)) \<noteq> kAllowUnstableCheckpointsSentinel
             \<longrightarrow> mayDropUntimestamped X n))"
    unfolding res_def by (rule dropLoopNoTimestamp_trace)
  then obtain evs where
    t0: "trace (snd res) = trace (snd (wuow_begin s1)) @ evs" and
    e0: "\<forall>ev \<in> set evs. \<exists>n res. ev = EvDropCollection n res \<and> n \<in> set colls \<and>
          (initialDataTimestamp (snd (wuow_begin s1)) \<noteq> kAllowUnstableCheckpointsSentinel
             \<longrightarrow> mayDropUntimestamped X n)"
    by blast
  have t: "trace (snd res) = trace s @ evs" using t0 t1 by simp
  have e: "\<forall>ev \<in> set evs. \<exists>n res. ev = EvDropCollection n res \<and> n \<in> set colls \<and> mayDropUntimestamped X n"
    using e0 i by blast
  have "\<exists>tl. trace s' = trace (snd res) @ tl \<and> set tl \<subseteq> {EvWuowCommit, EvWuowAbort}"
  proof (cases "fst res")
    case (Returns fe)
    with assms(2) unf have "trace s' = trace s2"
      by (auto simp: s0_def setCommitTimestamp_def split: if_splits)
    then show ?thesis by (simp add: s2_def trace_wuow_commit)
  next
    case (Throws x)
    with assms(2) unf have "trace s' = trace s3"
      by (auto simp: s0_def setCommitTimestamp_def split: if_splits)
    moreover have "trace s3 = trace (snd res) @ [EvWuowAbort]"
      by (simp add: s3_def wuow_abort_def abortUnitOfWork_def Let_def fold_change_rollback_frame)
    ultimately show ?thesis by simp
  next
    case (Fatal m)
    with assms(2) unf have "s' = snd res" by (simp add: s0_def)
    then show ?thesis by simp
  qed
  then obtain tl where tl: "trace s' = trace (snd res) @ tl" "set tl \<subseteq> {EvWuowCommit, EvWuowAbort}"
    by blast
  have c1: "trace s' = trace s @ (evs @ tl)" using t tl(1) by simp
  have c2: "\<forall>n res. EvDropCollection n res \<in> set (evs @ tl) \<longrightarrow>
              n \<in> set colls \<and>
              (\<not> nss_isReplicated X n \<or> startsWith (nss_coll n) ''tmp.mr'' \<or> isSystemDotIndexes n)"
  proof (intro allI impI)
    fix n res assume "EvDropCollection n res \<in> set (evs @ tl)"
    with tl(2) have "EvDropCollection n res \<in> set evs" by auto
    with e show "n \<in> set colls \<and>
              (\<not> nss_isReplicated X n \<or> startsWith (nss_coll n) ''tmp.mr'' \<or> isSystemDotIndexes n)"
      by (auto simp: mayDropUntimestamped_def)
  qed
  have c3: "\<forall>bad. find (\<lambda>n. \<not> mayDropUntimestamped X n) colls = Some bad \<longrightarrow>
              r = Fatal (untimestampedMsg bad)
              \<or> (\<exists>x. r = Throws x) \<or> r = Fatal ''dangling entry''"
    unfolding r res_def
    using dropLoopNoTimestamp_violation[OF i, of X colls _ a OK] by blast
  have ne: "\<And>n. untimestampedMsg n \<noteq> ''dangling entry''"
    by (simp add: untimestampedMsg_def)
  have c4: "(\<forall>n \<in> set colls. mayDropUntimestamped X n) \<longrightarrow>
              (\<forall>n. r \<noteq> Fatal (untimestampedMsg n))"
  proof (intro impI allI)
    fix n assume "\<forall>n \<in> set colls. mayDropUntimestamped X n"
    from dropLoopNoTimestamp_no_violation[OF this, of a OK "snd (wuow_begin s1)"]
    have "(\<exists>st. r = Returns st) \<or> (\<exists>x. r = Throws x) \<or> r = Fatal ''dangling entry''"
      unfolding r res_def .
    then show "r \<noteq> Fatal (untimestampedMsg n)"
      using ne[of n] by (elim disjE exE) simp_all
  qed
  have "\<exists>evs. trace s' = trace s @ evs \<and>
           (\<forall>n res. EvDropCollection n res \<in> set evs \<longrightarrow>
              n \<in> set colls \<and>
              (\<not> nss_isReplicated X n \<or> startsWith (nss_coll n) ''tmp.mr'' \<or> isSystemDotIndexes n)) \<and>
           (\<forall>bad. find (\<lambda>n. \<not> mayDropUntimestamped X n) colls = Some bad \<longrightarrow>
              r = Fatal (untimestampedMsg bad)
              \<or> (\<exists>x. r = Throws x) \<or> r = Fatal ''dangling entry'') \<and>
           ((\<forall>n \<in> set colls. mayDropUntimestamped X n) \<longrightarrow>
              (\<forall>n. r \<noteq> Fatal (untimestampedMsg n)))"
    using c1 c2 c3 c4 by blast
  then show ?thesis unfolding untimestampedMsg_def .
qed

text \<open>
  In stable-checkpoint mode the first phase drops \<open>d.system.profile\<close>, which is not
  replicated; with the replicated \<open>d.users\<close> in the phase as well, the invariant fails.
\<close>

theorem dropCollectionsNoTimestamp_invariant_witness:
  "(5::nat) \<noteq> kAllowUnstableCheckpointsSentinel
   \<and> fst (dropCollectionsNoTimestamp exampleCollaborators 0 [''d.system.profile'']
          (setInitialDataTimestamp 5 dropState)) = Returns OK
   \<and> fst (dropCollectionsNoTimestamp exampleCollaborators 0 [''d.system.profile'', ''d.users'']
          (setInitialDataTimestamp 5 dropState))
       = Fatal ''Collection drop is not being timestamped. Namespace: d.users''
   \<and> (\<exists>evs. trace (snd (dropCollectionsNoTimestamp exampleCollaborators 0
                       [''d.system.profile'', ''d.users''] (setInitialDataTimestamp 5 dropState)))
               = trace dropState @ evs \<and>
           (\<forall>n res. EvDropCollection n res \<in> set evs \<longrightarrow>
              n \<in> set [''d.system.profile'', ''d.users''] \<and>
              (\<not> nss_isReplicated exampleCollaborators n \<or> startsWith (nss_coll n) ''tmp.mr''
                 \<or> isSystemDotIndexes n)) \<and>
           (\<forall>bad. find (\<lambda>n. \<not> mayDropUntimestamped exampleCollaborators n)
                     [''d.system.profile'', ''d.users''] = Some bad \<longrightarrow>
              fst (dropCollectionsNoTimestamp exampleCollaborators 0
                     [''d.system.profile'', ''d.users''] (setInitialDataTimestamp 5 dropState))
                = Fatal (''Collection drop is not being timestamped. Namespace: '' @ bad)
              \<or> (\<exists>x. fst (dropCollectionsNoTimestamp exampleCollaborators 0
                     [''d.system.profile'', ''d.users''] (setInitialDataTimestamp 5 dropState)) = Throws x)
              \<or> fst (dropCollectionsNoTimestamp exampleCollaborators 0
                     [''d.system.profile'', ''d.users''] (setInitialDataTimestamp 5 dropState))
                  = Fatal ''dangling entry'') \<and>
           ((\<forall>n \<in> set [''d.system.profile'', ''d.users''].
                mayDropUntimestamped exampleCollaborators n) \<longrightarrow>
              (\<forall>n. fst (dropCollectionsNoTimestamp exampleCollaborators 0
                     [''d.system.profile'', ''d.users''] (setInitialDataTimestamp 5 dropState))
                 \<noteq> Fatal (''Collection drop is not being timestamped. Namespace: '' @ n))))"
proof -
  let ?ok = "dropCollectionsNoTimestamp exampleCollaborators 0 [''d.system.profile'']
          (setInitialDataTimestamp 5 dropState)"
  let ?res = "dropCollectionsNoTimestamp exampleCollaborators 0 [''d.system.profile'', ''d.users'']
          (setInitialDataTimestamp 5 dropState)"
  have h1: "(5::nat) \<noteq> kAllowUnstableCheckpointsSentinel"
    by (simp add: kAllowUnstableCheckpointsSentinel_def)
  have h2: "?res = (fst ?res, snd ?res)" by simp
  have r1: "fst ?ok = Returns OK" by (simp add: drop_eval)
  have r2: "fst ?res = Fatal ''Collection drop is not being timestamped. Namespace: d.users''"
    by (simp add: drop_eval)
  from h1 r1 r2 dropCollectionsNoTimestamp_invariant[OF h1 h2] show ?thesis by (intro conjI)
qed


subsection \<open>getDatabaseCatalogEntry\<close>



subsection \<open>repairRecordStore\<close>

text \<open>
  C10. When the engine's \<open>repairIdent\<close> returns an error for the ident of the namespace,
  \<open>repairRecordStore\<close> returns that status; \<open>reinitCollectionAfterRepair\<close> is not called,
  and the catalog entries and \<open>_dbs\<close> are as before.
\<close>

theorem repairRecordStore_error:
  assumes "catalog s = Some c" and "getCollectionIdent c n = Some i" and "engine s = Some e"
    and "\<not> isOK (fst (engine_repairIdent X e i))"
  shows "repairRecordStore X n s =
           (Returns (fst (engine_repairIdent X e i)),
            s\<lparr>engine := Some (snd (engine_repairIdent X e i)),
              trace := trace s @ [EvRepairIdent i]\<rparr>)
         \<and> heap (snd (repairRecordStore X n s)) = heap s
         \<and> dbs (snd (repairRecordStore X n s)) = dbs s
         \<and> trace (snd (repairRecordStore X n s)) = trace s @ [EvRepairIdent i]"
  using assms by (simp add: repairRecordStore_def Let_def)

text \<open>The engine does not have the table \<open>user.C\<close> of \<open>db.c\<close>, and fails to repair it.\<close>

theorem repairRecordStore_error_witness:
  "catalog missingCollectionState = Some missingCollectionCatalog
   \<and> getCollectionIdent missingCollectionCatalog ''db.c'' = Some ''user.C''
   \<and> \<not> isOK (fst (engine_repairIdent exampleCollaborators
               \<lparr>engine_idents = [''_mdb_catalog''], engine_shut = False\<rparr> ''user.C''))
   \<and> fst (repairRecordStore exampleCollaborators ''db.c'' missingCollectionState)
       = Returns (Error (OtherError 0) ''no such ident'')
   \<and> repairRecordStore exampleCollaborators ''db.c'' missingCollectionState =
           (Returns (fst (engine_repairIdent exampleCollaborators
               \<lparr>engine_idents = [''_mdb_catalog''], engine_shut = False\<rparr> ''user.C'')),
            missingCollectionState
              \<lparr>engine := Some (snd (engine_repairIdent exampleCollaborators
                   \<lparr>engine_idents = [''_mdb_catalog''], engine_shut = False\<rparr> ''user.C'')),
               trace := trace missingCollectionState @ [EvRepairIdent ''user.C'']\<rparr>)
   \<and> heap (snd (repairRecordStore exampleCollaborators ''db.c'' missingCollectionState))
       = heap missingCollectionState
   \<and> dbs (snd (repairRecordStore exampleCollaborators ''db.c'' missingCollectionState))
       = dbs missingCollectionState
   \<and> trace (snd (repairRecordStore exampleCollaborators ''db.c'' missingCollectionState))
       = trace missingCollectionState @ [EvRepairIdent ''user.C'']"
proof -
  let ?e = "\<lparr>engine_idents = [''_mdb_catalog''], engine_shut = False\<rparr>"
  have h1: "catalog missingCollectionState = Some missingCollectionCatalog"
    by (simp add: missingCollectionState_def stateWith_def)
  have h2: "getCollectionIdent missingCollectionCatalog ''db.c'' = Some ''user.C''"
    by (simp add: getCollectionIdent_def missingCollectionCatalog_def)
  have h3: "engine missingCollectionState = Some ?e"
    by (simp add: missingCollectionState_def stateWith_def)
  have h4: "\<not> isOK (fst (engine_repairIdent exampleCollaborators ?e ''user.C''))"
    by (simp add: exampleCollaborators_def)
  have r: "fst (repairRecordStore exampleCollaborators ''db.c'' missingCollectionState)
       = Returns (Error (OtherError 0) ''no such ident'')"
    using repairRecordStore_error[OF h1 h2 h3 h4] by (simp add: exampleCollaborators_def)
  from h1 h2 h4 r repairRecordStore_error[OF h1 h2 h3 h4] show ?thesis by (intro conjI) blast+
qed


end
